theory Spec2Isabelle
  imports Main "HOL-Library.AList" "HOL-Library.Sublist"
begin

section \<open>Python values\<close>

text \<open>
  The importer (\<^verbatim>\<open>pivotal_import.py\<close>) works on untyped dictionaries: a parsed CSV row,
  the payload sent to the target tracker, the tracker's answer. They are modelled by one
  datatype of Python values. A dictionary is an association list in insertion order with
  string keys (every key the importer uses is a field name); \<open>AList.update\<close> is Python's
  \<^verbatim>\<open>d[k] = v\<close> (the key keeps its position, a new key goes last) and \<open>AList.delete\<close> is
  \<^verbatim>\<open>del d[k]\<close>.

  \<^verbatim>\<open>collect_epic_label_mapping\<close> compares label names with \<^verbatim>\<open>is not\<close>, that is by object
  identity, not by contents. So a string value also records which object it is: one of the
  two module-level constants \<^verbatim>\<open>PIVOTAL_TO_SHORTCUT_LABEL\<close> and
  \<^verbatim>\<open>PIVOTAL_TO_SHORTCUT_RUN_LABEL\<close>, or any other string object (every string read from
  the CSV export is one: CPython creates a new object for each parsed field, whatever its
  contents).
\<close>

datatype str_id = OtherObj | LABEL_OBJ | RUN_LABEL_OBJ

datatype pyval =
    VNone
  | VBool bool
  | VInt int
  | VStr str_id string
  | VList "pyval list"
  | VDict "(string \<times> pyval) list"

type_synonym pydict = "(string \<times> pyval) list"

text \<open>Exceptions are values; every function that can raise returns \<open>error + 'a\<close>.\<close>

datatype error =
    KeyError
  | TypeError
  | AttributeError
  | ValueError
  | RuntimeError string
  | ApiError string

definition and_then :: "error + 'a \<Rightarrow> ('a \<Rightarrow> error + 'b) \<Rightarrow> error + 'b" where
  "and_then m f = (case m of Inl e \<Rightarrow> Inl e | Inr x \<Rightarrow> f x)"

text \<open>A loop that builds a list and stops at the first exception.\<close>

fun map_err :: "('a \<Rightarrow> error + 'b) \<Rightarrow> 'a list \<Rightarrow> error + 'b list" where
  "map_err f [] = Inr []"
| "map_err f (x # xs) =
     and_then (f x) (\<lambda>y. and_then (map_err f xs) (\<lambda>ys. Inr (y # ys)))"

text \<open>Truth value of a Python object, as \<^verbatim>\<open>if x:\<close> tests it.\<close>

fun truthy :: "pyval \<Rightarrow> bool" where
  "truthy VNone = False"
| "truthy (VBool b) = b"
| "truthy (VInt i) = (i \<noteq> 0)"
| "truthy (VStr i s) = (s \<noteq> [])"
| "truthy (VList xs) = (xs \<noteq> [])"
| "truthy (VDict kvs) = (kvs \<noteq> [])"

text \<open>
  \<^verbatim>\<open>for x in v\<close>: a list yields its elements, a string its characters, a dictionary its
  keys; \<^verbatim>\<open>None\<close>, booleans and integers are not iterable.
\<close>

fun py_iter :: "pyval \<Rightarrow> error + pyval list" where
  "py_iter (VList xs) = Inr xs"
| "py_iter (VStr i s) = Inr (map (\<lambda>c. VStr OtherObj [c]) s)"
| "py_iter (VDict kvs) = Inr (map (\<lambda>kv. VStr OtherObj (fst kv)) kvs)"
| "py_iter VNone = Inl TypeError"
| "py_iter (VBool b) = Inl TypeError"
| "py_iter (VInt n) = Inl TypeError"

text \<open>\<^verbatim>\<open>d.get(k)\<close>, \<^verbatim>\<open>d.get(k, default)\<close> and \<^verbatim>\<open>v[k]\<close> with a string key \<open>k\<close>.\<close>

definition dict_get :: "pydict \<Rightarrow> string \<Rightarrow> pyval" where
  "dict_get d k = (case map_of d k of None \<Rightarrow> VNone | Some v \<Rightarrow> v)"

definition dict_get_default :: "pydict \<Rightarrow> string \<Rightarrow> pyval \<Rightarrow> pyval" where
  "dict_get_default d k dflt = (case map_of d k of None \<Rightarrow> dflt | Some v \<Rightarrow> v)"

definition dict_index :: "pydict \<Rightarrow> string \<Rightarrow> error + pyval" where
  "dict_index d k = (case map_of d k of None \<Rightarrow> Inl KeyError | Some v \<Rightarrow> Inr v)"

fun subscript :: "pyval \<Rightarrow> string \<Rightarrow> error + pyval" where
  "subscript (VDict kvs) k = dict_index kvs k"
| "subscript v k = Inl TypeError"

text \<open>
  Dictionaries and sets keyed by data (label names, user names, iteration keys) hash their
  keys: lists and dictionaries are unhashable, \<^verbatim>\<open>True\<close> and \<^verbatim>\<open>1\<close> are the same key, and
  strings are keys by their contents.
\<close>

datatype pykey = KNone | KInt int | KStr string

fun hash_key :: "pyval \<Rightarrow> error + pykey" where
  "hash_key VNone = Inr KNone"
| "hash_key (VBool b) = Inr (KInt (if b then 1 else 0))"
| "hash_key (VInt i) = Inr (KInt i)"
| "hash_key (VStr i s) = Inr (KStr s)"
| "hash_key (VList xs) = Inl TypeError"
| "hash_key (VDict kvs) = Inl TypeError"

type_synonym keyed_dict = "pykey \<Rightarrow> pyval option"

text \<open>\<^verbatim>\<open>m.get(v)\<close>, \<^verbatim>\<open>m[v]\<close> and \<^verbatim>\<open>v in m\<close> on such a dictionary.\<close>

definition keyed_get :: "keyed_dict \<Rightarrow> pyval \<Rightarrow> error + pyval" where
  "keyed_get m v =
     and_then (hash_key v) (\<lambda>k. Inr (case m k of None \<Rightarrow> VNone | Some x \<Rightarrow> x))"

definition keyed_index :: "keyed_dict \<Rightarrow> pyval \<Rightarrow> error + pyval" where
  "keyed_index m v =
     and_then (hash_key v) (\<lambda>k. case m k of None \<Rightarrow> Inl KeyError | Some x \<Rightarrow> Inr x)"

definition keyed_contains :: "keyed_dict \<Rightarrow> pyval \<Rightarrow> error + bool" where
  "keyed_contains m v = and_then (hash_key v) (\<lambda>k. Inr (m k \<noteq> None))"

text \<open>\<^verbatim>\<open>v is C\<close> for one of the two module-level string constants \<open>C\<close>.\<close>

fun is_object :: "pyval \<Rightarrow> str_id \<Rightarrow> bool" where
  "is_object (VStr i s) c = (i = c)"
| "is_object v c = False"

section \<open>Module constants\<close>

definition BATCH_SIZE :: nat where
  "BATCH_SIZE = 100"

definition PIVOTAL_TO_SHORTCUT_LABEL :: string where
  "PIVOTAL_TO_SHORTCUT_LABEL = ''pivotal->shortcut''"

text \<open>
  The run label holds the time at which the module was loaded
  (\<^verbatim>\<open>datetime.now().strftime("%Y-%m-%d %H:%M")\<close>), a parameter here.
\<close>

definition PIVOTAL_TO_SHORTCUT_RUN_LABEL :: "string \<Rightarrow> string" where
  "PIVOTAL_TO_SHORTCUT_RUN_LABEL current_datetime = ''pivotal->shortcut '' @ current_datetime"

definition PIVOTAL_RELEASE_TYPE_LABEL :: string where
  "PIVOTAL_RELEASE_TYPE_LABEL = ''pivotal-release''"

definition PIVOTAL_HAD_REVIEW_LABEL :: string where
  "PIVOTAL_HAD_REVIEW_LABEL = ''pivotal-had-review''"

fun select_keys :: "string \<Rightarrow> string list" where
  "select_keys t =
     (if t = ''story'' then
        [''comments'', ''created_at'', ''custom_fields'', ''deadline'', ''description'',
         ''estimate'', ''external_id'', ''external_links'', ''follower_ids'', ''group_id'',
         ''iteration_id'', ''labels'', ''name'', ''owner_ids'', ''requested_by_id'',
         ''story_type'', ''tasks'', ''workflow_state_id'']
      else if t = ''epic'' then
        [''created_at'', ''description'', ''external_id'', ''group_ids'', ''labels'', ''name'']
      else [])"

section \<open>Entity records\<close>

text \<open>
  The dictionaries the pipeline passes around (\<^verbatim>\<open>{"type": ..., "entity": ..., ...}\<close>).
  \<^verbatim>\<open>type\<close> and \<^verbatim>\<open>entity\<close> are set by every constructor of the source; the other keys are
  optional (\<open>None\<close> here is an absent key, \<open>Some VNone\<close> a key holding \<^verbatim>\<open>None\<close>).
\<close>

record item =
  type :: string
  entity :: pydict
  iteration :: "pyval option"
  pt_iteration_id :: "pyval option"
  parsed_row :: "pydict option"
  imported_entity :: "pyval option"
  error_message :: "string option"

definition item_index :: "'a option \<Rightarrow> error + 'a" where
  "item_index field = (case field of None \<Rightarrow> Inl KeyError | Some v \<Rightarrow> Inr v)"

section \<open>Linking stories to epics\<close>

text \<open>
  \<^verbatim>\<open>collect_epic_label_mapping\<close>: the inner loop over one epic's labels, then the loop over
  the epics. The right-hand side \<^verbatim>\<open>epic["imported_entity"]["id"]\<close> is evaluated before the
  label name is hashed.
\<close>

fun epic_label_loop :: "keyed_dict \<Rightarrow> item \<Rightarrow> pyval list \<Rightarrow> error + keyed_dict" where
  "epic_label_loop epic_label_map epic [] = Inr epic_label_map"
| "epic_label_loop epic_label_map epic (label # rest) =
     and_then (subscript label ''name'') (\<lambda>label_name.
       if \<not> is_object label_name LABEL_OBJ \<and> \<not> is_object label_name RUN_LABEL_OBJ then
         and_then (item_index (imported_entity epic)) (\<lambda>imported.
         and_then (subscript imported ''id'') (\<lambda>epic_id.
         and_then (hash_key label_name) (\<lambda>k.
           epic_label_loop (epic_label_map(k \<mapsto> epic_id)) epic rest)))
       else epic_label_loop epic_label_map epic rest)"

fun epic_loop :: "keyed_dict \<Rightarrow> item list \<Rightarrow> error + keyed_dict" where
  "epic_loop epic_label_map [] = Inr epic_label_map"
| "epic_loop epic_label_map (epic # rest) =
     and_then (dict_index (entity epic) ''labels'') (\<lambda>ls.
     and_then (py_iter ls) (\<lambda>labels.
     and_then (epic_label_loop epic_label_map epic labels) (\<lambda>m.
       epic_loop m rest)))"

definition collect_epic_label_mapping :: "item list \<Rightarrow> error + keyed_dict" where
  "collect_epic_label_mapping epics = epic_loop Map.empty epics"

text \<open>
  \<^verbatim>\<open>assign_stories_to_epics\<close>: the loop over one story's labels (the list is read once,
  before the entity is changed), the body for one story, and the whole function.
\<close>

fun story_label_loop :: "keyed_dict \<Rightarrow> pydict \<Rightarrow> pyval list \<Rightarrow> error + pydict" where
  "story_label_loop epic_label_map e [] = Inr e"
| "story_label_loop epic_label_map e (label # rest) =
     and_then (subscript label ''name'') (\<lambda>label_name.
     and_then (keyed_get epic_label_map label_name) (\<lambda>epic_id.
       story_label_loop epic_label_map
         (if epic_id \<noteq> VNone then AList.update ''epic_id'' epic_id e else e) rest))"

definition assign_story_to_epic :: "keyed_dict \<Rightarrow> item \<Rightarrow> error + item" where
  "assign_story_to_epic epic_label_map story =
     and_then (py_iter (dict_get_default (entity story) ''labels'' (VList []))) (\<lambda>labels.
     and_then (story_label_loop epic_label_map (entity story) labels) (\<lambda>e.
       Inr (story\<lparr>entity := e\<rparr>)))"

definition assign_stories_to_epics :: "item list \<Rightarrow> item list \<Rightarrow> error + item list" where
  "assign_stories_to_epics stories epics =
     and_then (collect_epic_label_mapping epics) (\<lambda>epic_label_map.
       map_err (assign_story_to_epic epic_label_map) stories)"

section \<open>The entity builder\<close>

text \<open>
  The run context \<^verbatim>\<open>ctx\<close> built by \<^verbatim>\<open>build_ctx\<close>: the group id and the three mappings
  loaded from the configuration files (dictionaries keyed by Pivotal names).
\<close>

record ctx =
  group_id :: pyval
  priority_config :: keyed_dict
  priority_custom_field_id :: pyval
  user_config :: keyed_dict
  workflow_config :: keyed_dict

definition bslash :: char where
  "bslash = CHR 0x5C"

definition newline :: char where
  "newline = CHR 0x0A"

definition review_as_comment_text_prefix :: string where
  "review_as_comment_text_prefix =
     [bslash] @ ''[Pivotal Importer'' @ [bslash]
     @ ''] Reviewers have been added as followers on this Shortcut Story.''
     @ [newline, newline]
     @ ''The following table describes the state of their reviews when they were imported into Shortcut from Pivotal Tracker:''
     @ [newline, newline]
     @ ''| Reviewer | Review Type | Review Status |''
     @ [newline]
     @ ''|---|---|---|''"

text \<open>\<^verbatim>\<open>s.replace("|", "\\|")\<close>: every bar becomes a backslash and a bar.\<close>

definition escape_md_table_syntax :: "string \<Rightarrow> string" where
  "escape_md_table_syntax s = concat (map (\<lambda>c. if c = CHR ''|'' then [bslash, CHR ''|''] else [c]) s)"

text \<open>The method call \<^verbatim>\<open>.replace\<close> exists on strings only.\<close>

fun escape_cell :: "pyval \<Rightarrow> error + string" where
  "escape_cell (VStr i s) = Inr (escape_md_table_syntax s)"
| "escape_cell v = Inl AttributeError"

text \<open>\<^verbatim>\<open>v == "literal"\<close>.\<close>

fun py_eq_str :: "pyval \<Rightarrow> string \<Rightarrow> bool" where
  "py_eq_str (VStr i s) t = (s = t)"
| "py_eq_str v t = False"

definition label_dict :: "str_id \<Rightarrow> string \<Rightarrow> pyval" where
  "label_dict i n = VDict [(''name'', VStr i n)]"

definition build_run_label_entity :: "string \<Rightarrow> item" where
  "build_run_label_entity current_datetime =
     \<lparr>type = ''label'',
      entity = [(''name'', VStr RUN_LABEL_OBJ (PIVOTAL_TO_SHORTCUT_RUN_LABEL current_datetime))],
      iteration = None, pt_iteration_id = None, parsed_row = None,
      imported_entity = None, error_message = None\<rparr>"

text \<open>
  \<^verbatim>\<open>d.setdefault("labels", []).extend(xs)\<close> (and \<^verbatim>\<open>.append(x)\<close>, with \<open>xs = [x]\<close>): only a
  list has these methods.
\<close>

definition setdefault_labels_extend :: "pydict \<Rightarrow> pyval list \<Rightarrow> error + pydict" where
  "setdefault_labels_extend d xs =
     (case map_of d ''labels'' of
        None \<Rightarrow> Inr (AList.update ''labels'' (VList xs) d)
      | Some (VList ls) \<Rightarrow> Inr (AList.update ''labels'' (VList (ls @ xs)) d)
      | Some v \<Rightarrow> Inl AttributeError)"

text \<open>
  \<^verbatim>\<open>build_entity\<close> is one long function; the model follows it section by section, one
  definition for each of its commented sections, in the order of the source. The body of
  the comment loop: only a dictionary has both \<^verbatim>\<open>.copy()\<close> and \<^verbatim>\<open>.get\<close>.
\<close>

fun process_comment :: "ctx \<Rightarrow> pyval \<Rightarrow> error + pyval" where
  "process_comment ctx (VDict comment) =
     (let author = dict_get comment ''author'' in
      if truthy author then
        and_then (keyed_get (user_config ctx) author) (\<lambda>author_id.
          Inr (VDict (if truthy author_id
                      then AList.update ''author_id'' author_id (AList.delete ''author'' comment)
                      else AList.delete ''author'' comment)))
      else Inr (VDict comment))"
| "process_comment ctx v = Inl AttributeError"

text \<open>Releases become stories of type chore.\<close>

definition process_release :: "pydict \<Rightarrow> error + pydict" where
  "process_release d =
     and_then (dict_index d ''story_type'') (\<lambda>story_type.
       if py_eq_str story_type ''release'' then
         setdefault_labels_extend (AList.update ''story_type'' (VStr OtherObj ''chore'') d)
           [label_dict OtherObj PIVOTAL_RELEASE_TYPE_LABEL]
       else Inr d)"

definition process_workflow_state :: "ctx \<Rightarrow> pydict \<Rightarrow> error + pydict" where
  "process_workflow_state ctx d =
     (let pt_state = dict_get d ''pt_state'' in
      if truthy pt_state then
        and_then (keyed_index (workflow_config ctx) pt_state) (\<lambda>state_id.
          Inr (AList.update ''workflow_state_id'' state_id d))
      else Inr d)"

definition process_tasks :: "pydict \<Rightarrow> error + pydict" where
  "process_tasks d =
     and_then (py_iter (dict_get_default d ''task_titles'' (VList []))) (\<lambda>titles.
     and_then (py_iter (dict_get_default d ''task_states'' (VList []))) (\<lambda>states.
       let tasks = map (\<lambda>(title, state).
                     VDict [(''description'', title),
                            (''complete'', VBool (py_eq_str state ''completed''))])
                   (zip titles states)
       in Inr (if tasks \<noteq> [] then AList.update ''tasks'' (VList tasks) d else d)))"

definition process_requester :: "ctx \<Rightarrow> pydict \<Rightarrow> error + pydict" where
  "process_requester ctx d =
     (let requester = dict_get d ''requester'' in
      if truthy requester then
        and_then (keyed_get (user_config ctx) requester) (\<lambda>sc_requester_id.
          Inr (if truthy sc_requester_id
               then AList.update ''requested_by_id'' sc_requester_id d else d))
      else Inr d)"

text \<open>\<^verbatim>\<open>[user_to_sc_id[u] for u in users if u in user_to_sc_id]\<close>.\<close>

fun known_users :: "keyed_dict \<Rightarrow> pyval list \<Rightarrow> error + pyval list" where
  "known_users user_to_sc_id [] = Inr []"
| "known_users user_to_sc_id (u # us) =
     and_then (keyed_contains user_to_sc_id u) (\<lambda>found.
     and_then (if found then and_then (keyed_index user_to_sc_id u) (\<lambda>x. Inr [x]) else Inr [])
       (\<lambda>xs.
     and_then (known_users user_to_sc_id us) (\<lambda>ys. Inr (xs @ ys))))"

definition process_owners :: "ctx \<Rightarrow> pydict \<Rightarrow> error + pydict" where
  "process_owners ctx d =
     (let owners = dict_get d ''owners'' in
      if truthy owners then
        and_then (py_iter owners) (\<lambda>os.
        and_then (known_users (user_config ctx) os) (\<lambda>ids.
          Inr (AList.update ''owner_ids'' (VList ids) d)))
      else Inr d)"

definition process_reviewers :: "ctx \<Rightarrow> pydict \<Rightarrow> error + pydict" where
  "process_reviewers ctx d =
     (let reviewers = dict_get d ''reviewers'' in
      if truthy reviewers then
        and_then (py_iter reviewers) (\<lambda>rs.
        and_then (known_users (user_config ctx) rs) (\<lambda>ids.
          setdefault_labels_extend (AList.update ''follower_ids'' (VList ids) d)
            [label_dict OtherObj PIVOTAL_HAD_REVIEW_LABEL]))
      else Inr d)"

text \<open>One row of the review table, \<^verbatim>\<open>f"\n|{reviewer}|{review_type}|{review_status}|"\<close>.\<close>

definition review_row :: "pyval \<times> pyval \<times> pyval \<Rightarrow> error + string" where
  "review_row r =
     (case r of (reviewer, review_type, review_status) \<Rightarrow>
        and_then (escape_cell reviewer) (\<lambda>a.
        and_then (escape_cell review_type) (\<lambda>b.
        and_then (escape_cell review_status) (\<lambda>c.
          Inr ([newline] @ ''|'' @ a @ ''|'' @ b @ ''|'' @ c @ ''|'')))))"

definition review_triples :: "pydict \<Rightarrow> error + (pyval \<times> pyval \<times> pyval) list" where
  "review_triples d =
     and_then (py_iter (dict_get_default d ''reviewers'' (VList []))) (\<lambda>reviewers.
     and_then (py_iter (dict_get_default d ''review_types'' (VList []))) (\<lambda>review_types.
     and_then (py_iter (dict_get_default d ''review_states'' (VList []))) (\<lambda>review_states.
       Inr (zip reviewers (zip review_types review_states)))))"

definition process_review_comment :: "pydict \<Rightarrow> pyval list \<Rightarrow> error + pyval list" where
  "process_review_comment d comments =
     (if truthy (dict_get d ''reviewers'') then
        and_then (review_triples d) (\<lambda>triples.
        and_then (map_err review_row triples) (\<lambda>rows.
          Inr (comments @
               [VDict [(''author_id'', dict_get_default d ''requested_by_id'' VNone),
                       (''text'', VStr OtherObj (review_as_comment_text_prefix @ concat rows))]])))
      else Inr comments)"

definition process_priority :: "ctx \<Rightarrow> pydict \<Rightarrow> error + pydict" where
  "process_priority ctx d =
     (let pt_priority = dict_get d ''priority'' in
      if truthy pt_priority then
        and_then (keyed_index (priority_config ctx) pt_priority) (\<lambda>value_id.
          Inr (AList.update ''custom_fields''
                 (VList [VDict [(''field_id'', priority_custom_field_id ctx),
                                (''value_id'', value_id)]]) d))
      else Inr d)"

text \<open>\<^verbatim>\<open>"|".join([a, b, c])\<close>: every element must be a string.\<close>

fun join_bar :: "pyval \<Rightarrow> pyval \<Rightarrow> pyval \<Rightarrow> error + pyval" where
  "join_bar (VStr i a) (VStr j b) (VStr k c) = Inr (VStr OtherObj (a @ ''|'' @ b @ ''|'' @ c))"
| "join_bar x y z = Inl TypeError"

definition process_iteration :: "pyval \<Rightarrow> pydict \<Rightarrow> error + pyval" where
  "process_iteration pt_id d =
     (if truthy pt_id then
        and_then (dict_index d ''pt_iteration_start_date'') (\<lambda>start_date.
        and_then (dict_index d ''pt_iteration_end_date'') (\<lambda>end_date.
          join_bar pt_id start_date end_date))
      else Inr VNone)"

definition store_comments :: "pyval list \<Rightarrow> pydict \<Rightarrow> pydict" where
  "store_comments comments d =
     (if comments \<noteq> [] then AList.update ''comments'' (VList comments) d
      else AList.delete ''comments'' d)"

text \<open>The branch \<^verbatim>\<open>if type == "story"\<close>; it yields the row and the iteration key.\<close>

definition build_story :: "ctx \<Rightarrow> pyval list \<Rightarrow> pyval \<Rightarrow> pydict \<Rightarrow> error + (pydict \<times> pyval)" where
  "build_story ctx comments pt_id d =
     and_then (process_workflow_state ctx (AList.update ''group_id'' (group_id ctx) d)) (\<lambda>d1.
     and_then (process_tasks d1) (\<lambda>d2.
     and_then (process_requester ctx d2) (\<lambda>d3.
     and_then (process_owners ctx d3) (\<lambda>d4.
     and_then (process_reviewers ctx d4) (\<lambda>d5.
     and_then (process_review_comment d5 comments) (\<lambda>comments1.
     and_then (process_priority ctx d5) (\<lambda>d6.
     and_then (process_iteration pt_id d6) (\<lambda>it.
       Inr (store_comments comments1 d6, it)))))))))"

text \<open>The branch \<^verbatim>\<open>elif type == "epic"\<close>.\<close>

definition build_epic :: "ctx \<Rightarrow> pydict \<Rightarrow> pydict" where
  "build_epic ctx d =
     AList.update ''group_ids''
       (if group_id ctx \<noteq> VNone then VList [group_id ctx] else VList []) d"

text \<open>\<^verbatim>\<open>{k: d[k] for k in select_keys[type] if k in d}\<close>.\<close>

definition project_keys :: "string list \<Rightarrow> pydict \<Rightarrow> pydict" where
  "project_keys ks d =
     concat (map (\<lambda>k. case map_of d k of None \<Rightarrow> [] | Some v \<Rightarrow> [(k, v)]) ks)"

definition build_entity :: "string \<Rightarrow> ctx \<Rightarrow> pydict \<Rightarrow> error + item" where
  "build_entity current_datetime ctx d =
     and_then (setdefault_labels_extend d
                 [label_dict LABEL_OBJ PIVOTAL_TO_SHORTCUT_LABEL,
                  label_dict RUN_LABEL_OBJ (PIVOTAL_TO_SHORTCUT_RUN_LABEL current_datetime)])
       (\<lambda>d1.
     and_then (dict_index d1 ''story_type'') (\<lambda>story_type.
     let t = (if py_eq_str story_type ''epic'' then ''epic'' else ''story'') in
     and_then (py_iter (dict_get_default d1 ''comments'' (VList []))) (\<lambda>cs.
     and_then (map_err (process_comment ctx) cs) (\<lambda>comments.
     and_then (process_release d1) (\<lambda>d2.
     let pt_id = dict_get_default d2 ''pt_iteration_id'' VNone in
     and_then (if t = ''story'' then build_story ctx comments pt_id d2
               else Inr (build_epic ctx d2, VNone)) (\<lambda>(d3, it).
       Inr \<lparr>type = t,
            entity = project_keys (select_keys t) d3,
            iteration = Some it,
            pt_iteration_id = Some pt_id,
            parsed_row = Some d3,
            imported_entity = None,
            error_message = None\<rparr>))))))"

section \<open>Notions used by the statements\<close>

text \<open>
  The key under which a label is looked up in the epic-label map: its \<^verbatim>\<open>name\<close>, hashed.
\<close>

definition label_key :: "pyval \<Rightarrow> error + pykey" where
  "label_key label = and_then (subscript label ''name'') hash_key"

text \<open>
  The contents of a string, one row of the review table over the contents of its three
  cells, and the requester id the builder resolves for a row (\<^verbatim>\<open>None\<close> when the row names
  no requester or the user mapping does not give one).
\<close>

fun str_text :: "pyval \<Rightarrow> string" where
  "str_text (VStr i s) = s"
| "str_text v = []"

fun is_str :: "pyval \<Rightarrow> bool" where
  "is_str (VStr i s) = True"
| "is_str v = False"

definition table_row :: "pyval \<times> pyval \<times> pyval \<Rightarrow> string" where
  "table_row r =
     (case r of (reviewer, review_type, review_status) \<Rightarrow>
        [newline] @ ''|'' @ escape_md_table_syntax (str_text reviewer)
        @ ''|'' @ escape_md_table_syntax (str_text review_type)
        @ ''|'' @ escape_md_table_syntax (str_text review_status) @ ''|'')"

definition resolved_requester :: "ctx \<Rightarrow> pydict \<Rightarrow> pyval" where
  "resolved_requester ctx d =
     (if truthy (dict_get d ''requester'') then
        (case keyed_get (user_config ctx) (dict_get d ''requester'') of
           Inl e \<Rightarrow> VNone
         | Inr sc_requester_id \<Rightarrow> if truthy sc_requester_id then sc_requester_id else VNone)
      else VNone)"

section \<open>Linking stories to iterations\<close>

text \<open>
  \<^verbatim>\<open>str(n)\<close> for an integer, \<^verbatim>\<open>sep.join(xs)\<close>, and \<^verbatim>\<open>repr(v)\<close> and \<^verbatim>\<open>str(v)\<close> for a value.
  The \<^verbatim>\<open>repr\<close> of a string is quoted (in double quotes when the string has a single quote
  and no double quote) and escapes the quote, the backslash, tab, newline, carriage return
  and, as a backslash, \<^verbatim>\<open>x\<close> and two hexadecimal digits, the characters that are not
  printable; the characters of the model are those with a code below 256. \<^verbatim>\<open>str\<close> of a string is the string, \<^verbatim>\<open>str\<close> of any other
  value is its \<^verbatim>\<open>repr\<close>; it never raises.
\<close>

definition digit_char :: "nat \<Rightarrow> char" where
  "digit_char n = char_of (48 + n)"

function str_nat :: "nat \<Rightarrow> string" where
  "str_nat n = (if n < 10 then [digit_char n] else str_nat (n div 10) @ [digit_char (n mod 10)])"
  by pat_completeness auto
termination
  by (relation "measure id") auto

definition str_int :: "int \<Rightarrow> string" where
  "str_int i = (if i < 0 then ''-'' @ str_nat (nat (- i)) else str_nat (nat i))"

fun join_with :: "string \<Rightarrow> string list \<Rightarrow> string" where
  "join_with sep [] = []"
| "join_with sep [x] = x"
| "join_with sep (x # y # ys) = x @ sep @ join_with sep (y # ys)"

definition hex_digit :: "nat \<Rightarrow> char" where
  "hex_digit n = (if n < 10 then char_of (48 + n) else char_of (87 + n))"

definition printable :: "char \<Rightarrow> bool" where
  "printable c \<longleftrightarrow>
     (let n = (of_char c :: nat)
      in 32 \<le> n \<and> n \<noteq> 127 \<and> \<not> (128 \<le> n \<and> n \<le> 160) \<and> n \<noteq> 173)"

definition repr_char :: "char \<Rightarrow> char \<Rightarrow> string" where
  "repr_char quote c =
     (if c = quote \<or> c = bslash then [bslash, c]
      else if c = CHR 0x09 then [bslash, CHR ''t'']
      else if c = CHR 0x0A then [bslash, CHR ''n'']
      else if c = CHR 0x0D then [bslash, CHR ''r'']
      else if \<not> printable c then
        [bslash, CHR ''x'', hex_digit (of_char c div 16), hex_digit (of_char c mod 16)]
      else [c])"

definition repr_str :: "string \<Rightarrow> string" where
  "repr_str s =
     (let quote = (if CHR 0x27 \<in> set s \<and> CHR 0x22 \<notin> set s then CHR 0x22 else CHR 0x27)
      in [quote] @ concat (map (repr_char quote) s) @ [quote])"

fun py_repr :: "pyval \<Rightarrow> string" where
  "py_repr VNone = ''None''"
| "py_repr (VBool b) = (if b then ''True'' else ''False'')"
| "py_repr (VInt i) = str_int i"
| "py_repr (VStr i s) = repr_str s"
| "py_repr (VList xs) = ''['' @ join_with '', '' (map py_repr xs) @ '']''"
| "py_repr (VDict kvs) =
     ''{'' @ join_with '', '' (map (\<lambda>(k, v). repr_str k @ '': '' @ py_repr v) kvs) @ ''}''"

fun py_str :: "pyval \<Rightarrow> error + string" where
  "py_str (VStr i s) = Inr s"
| "py_str v = Inr (py_repr v)"

text \<open>\<^verbatim>\<open>collect_pt_iteration_mapping\<close>: a dictionary from \<^verbatim>\<open>str(pt_iteration_id)\<close> to target id.\<close>

fun pt_iteration_loop :: "(string \<Rightarrow> pyval option) \<Rightarrow> item list \<Rightarrow> error + (string \<Rightarrow> pyval option)" where
  "pt_iteration_loop d [] = Inr d"
| "pt_iteration_loop d (it # rest) =
     and_then (item_index (pt_iteration_id it)) (\<lambda>pt_id.
     and_then (item_index (imported_entity it)) (\<lambda>imported.
     and_then (subscript imported ''id'') (\<lambda>sc_iteration_id.
     and_then (py_str pt_id) (\<lambda>k.
       pt_iteration_loop (d(k \<mapsto> sc_iteration_id)) rest))))"

definition collect_pt_iteration_mapping :: "item list \<Rightarrow> error + (string \<Rightarrow> pyval option)" where
  "collect_pt_iteration_mapping its = pt_iteration_loop Map.empty its"

text \<open>\<^verbatim>\<open>assign_stories_to_iterations\<close>: the body of its loop for one story, and the function.\<close>

definition assign_story_to_iteration :: "(string \<Rightarrow> pyval option) \<Rightarrow> item \<Rightarrow> error + item" where
  "assign_story_to_iteration pt_iteration_mapping story =
     and_then (item_index (pt_iteration_id story)) (\<lambda>pt_id.
       if truthy pt_id then
         and_then (py_str pt_id) (\<lambda>k.
           case pt_iteration_mapping k of
             None \<Rightarrow> Inl KeyError
           | Some sc_iteration_id \<Rightarrow>
               Inr (story\<lparr>entity := AList.update ''iteration_id'' sc_iteration_id (entity story)\<rparr>))
       else Inr story)"

definition assign_stories_to_iterations :: "item list \<Rightarrow> item list \<Rightarrow> error + item list" where
  "assign_stories_to_iterations batch its =
     and_then (collect_pt_iteration_mapping its) (\<lambda>pt_iteration_mapping.
       map_err (assign_story_to_iteration pt_iteration_mapping) batch)"

section \<open>The world outside the process\<close>

text \<open>
  What the importer changes besides its own objects: the target tracker (behind
  \<^verbatim>\<open>sc_post\<close> and \<^verbatim>\<open>sc_upload_files\<close> of \<^verbatim>\<open>lib.py\<close>, which is not part of the sources, so its
  state \<open>'b\<close> and its answers are parameters), the counter of the dry-run emitter, and three
  files: the Ledger \<^verbatim>\<open>shortcut_imported_entities_csv\<close> and the two remediation files
  \<^verbatim>\<open>data/failed_stories.csv\<close> and \<^verbatim>\<open>data/failed_files.csv\<close> (\<open>None\<close>: the file does not
  exist). Files are written without I/O errors. A Ledger row holds the values of
  \<^verbatim>\<open>entity["entity_type"]\<close> and \<^verbatim>\<open>entity["id"]\<close>; a row of the failed-stories file holds story
  name, external id, error message and payload (the time stamp is left out).
\<close>

datatype ledger_line = Header | Row pyval pyval

datatype failed_line = FailedHeader | FailedRow pyval pyval string pydict

record 'b world =
  api :: 'b
  mock_global_id :: nat
  imported_entities_csv :: "ledger_line list"
  failed_stories_csv :: "failed_line list option"
  failed_files_csv :: "pydict list option"

text \<open>
  The directories of attachments (\<^verbatim>\<open>os.path.isdir\<close> and \<^verbatim>\<open>os.walk\<close> on \<^verbatim>\<open>data/<pt_id>\<close>, given
  the id) and the functions of \<^verbatim>\<open>lib.py\<close> that call the tracker. \<^verbatim>\<open>sc_upload_files\<close> answers
  with the uploaded and the failed files.
\<close>

record 'b env =
  sc_post :: "string \<Rightarrow> pyval \<Rightarrow> 'b \<Rightarrow> (error + pyval) \<times> 'b"
  sc_upload_files :: "string list \<Rightarrow> 'b \<Rightarrow> (error + pyval list \<times> pyval list) \<times> 'b"
  isdir :: "pyval \<Rightarrow> bool"
  walk :: "pyval \<Rightarrow> string \<Rightarrow> string option"

text \<open>
  A computation that changes the world and returns or raises: whatever it changed before
  raising stays changed.
\<close>

type_synonym ('b, 'a) prog = "'b world \<Rightarrow> (error + 'a) \<times> 'b world"

definition pure_w :: "'a \<Rightarrow> ('b, 'a) prog" where
  "pure_w x = (\<lambda>w. (Inr x, w))"

definition lift_w :: "error + 'a \<Rightarrow> ('b, 'a) prog" where
  "lift_w m = (\<lambda>w. (m, w))"

definition bind_w :: "('b, 'a) prog \<Rightarrow> ('a \<Rightarrow> ('b, 'c) prog) \<Rightarrow> ('b, 'c) prog" where
  "bind_w m f = (\<lambda>w. case m w of (Inl e, w1) \<Rightarrow> (Inl e, w1) | (Inr x, w1) \<Rightarrow> f x w1)"

definition effect_w :: "('b world \<Rightarrow> 'b world) \<Rightarrow> ('b, unit) prog" where
  "effect_w g = (\<lambda>w. (Inr (), g w))"

text \<open>
  \<^verbatim>\<open>write_to_imported_entities_csv\<close>. The rows are written one by one inside
  \<^verbatim>\<open>try ... except Exception\<close>: an entity without \<^verbatim>\<open>entity_type\<close> or \<^verbatim>\<open>id\<close> ends the writing,
  the rows before it stay. Mode \<^verbatim>\<open>'w'\<close> truncates the file and writes the header.
\<close>

fun ledger_rows :: "pyval list \<Rightarrow> ledger_line list" where
  "ledger_rows [] = []"
| "ledger_rows (e # es) =
     (case subscript e ''entity_type'' of
        Inl err \<Rightarrow> []
      | Inr t \<Rightarrow>
          (case subscript e ''id'' of
             Inl err \<Rightarrow> []
           | Inr i \<Rightarrow> Row t i # ledger_rows es))"

datatype file_mode = ModeA | ModeW

definition write_to_imported_entities_csv :: "pyval list \<Rightarrow> file_mode \<Rightarrow> 'b world \<Rightarrow> 'b world" where
  "write_to_imported_entities_csv entities mode w =
     (if entities = [] then w
      else w\<lparr>imported_entities_csv :=
               (case mode of ModeW \<Rightarrow> [Header] | ModeA \<Rightarrow> imported_entities_csv w)
               @ ledger_rows entities\<rparr>)"

text \<open>\<^verbatim>\<open>write_failed_stories\<close>: appends, with the header when the file is new.\<close>

definition failed_row :: "item \<Rightarrow> failed_line" where
  "failed_row story =
     FailedRow (dict_get_default (entity story) ''name'' (VStr OtherObj ''Unknown''))
       (dict_get_default (entity story) ''external_id'' (VStr OtherObj ''Unknown''))
       (case error_message story of None \<Rightarrow> ''Unknown error'' | Some m \<Rightarrow> m)
       (entity story)"

definition write_failed_stories :: "item list \<Rightarrow> 'b world \<Rightarrow> 'b world" where
  "write_failed_stories failed_stories w =
     (if failed_stories = [] then w
      else w\<lparr>failed_stories_csv :=
               Some ((case failed_stories_csv w of None \<Rightarrow> [FailedHeader] | Some ls \<Rightarrow> ls)
                     @ map failed_row failed_stories)\<rparr>)"

text \<open>
  \<^verbatim>\<open>write_failed_files_csv\<close>: \<^verbatim>\<open>csv.DictWriter\<close> raises \<^verbatim>\<open>ValueError\<close> on a dictionary with a
  field outside its columns, which \<^verbatim>\<open>except IOError\<close> does not catch; the rows before it
  are written.
\<close>

fun failed_file_rows :: "pyval list \<Rightarrow> pydict list \<times> bool" where
  "failed_file_rows [] = ([], True)"
| "failed_file_rows (VDict f # fs) =
     (if set (map fst f) \<subseteq> {''story_id'', ''filename'', ''error'', ''timestamp''}
      then (case failed_file_rows fs of (rows, ok) \<Rightarrow> (f # rows, ok))
      else ([], False))"
| "failed_file_rows (v # fs) = ([], False)"

definition write_failed_files_csv :: "pyval list \<Rightarrow> ('b, unit) prog" where
  "write_failed_files_csv failed_files =
     (\<lambda>w. if failed_files = [] then (Inr (), w)
          else (case failed_file_rows failed_files of (rows, ok) \<Rightarrow>
                  (if ok then Inr () else Inl ValueError,
                   w\<lparr>failed_files_csv :=
                       Some ((case failed_files_csv w of None \<Rightarrow> [] | Some ls \<Rightarrow> ls) @ rows)\<rparr>)))"

section \<open>The dry-run emitter\<close>

text \<open>
  \<^verbatim>\<open>get_mock_emitter\<close>: ids come from a counter. The progress line formats
  \<^verbatim>\<open>item["entity"]["name"]\<close>, so an entity without a name raises \<^verbatim>\<open>KeyError\<close> (after the
  counter has moved).
\<close>

definition mock_created_entity :: "item \<Rightarrow> nat \<Rightarrow> pyval" where
  "mock_created_entity item entity_id =
     VDict (AList.update ''app_url'' (VStr OtherObj (''https://example.com/entity/'' @ str_nat entity_id))
           (AList.update ''entity_type'' (VStr OtherObj (type item))
           (AList.update ''id'' (VInt (int entity_id)) (entity item))))"

fun mock_emitter :: "item list \<Rightarrow> ('b, item list) prog" where
  "mock_emitter [] = pure_w []"
| "mock_emitter (item # rest) =
     bind_w (\<lambda>w. (Inr (mock_global_id w), w\<lparr>mock_global_id := mock_global_id w + 1\<rparr>)) (\<lambda>entity_id.
     bind_w (lift_w (dict_index (entity item) ''name'')) (\<lambda>name.
     bind_w (mock_emitter rest) (\<lambda>items.
       pure_w (item\<lparr>imported_entity := Some (mock_created_entity item entity_id)\<rparr> # items))))"

section \<open>Attachments\<close>

text \<open>
  \<^verbatim>\<open>process_files_for_stories\<close>, from the inside out. \<^verbatim>\<open>os.path.basename\<close>; \<^verbatim>\<open>len(v)\<close>; the paths
  of the attachments a comment names that exist below the story's directory.
\<close>

definition basename :: "string \<Rightarrow> string" where
  "basename p = rev (takeWhile (\<lambda>c. c \<noteq> CHR ''/'') (rev p))"

fun py_len :: "pyval \<Rightarrow> error + nat" where
  "py_len (VList xs) = Inr (length xs)"
| "py_len (VStr i s) = Inr (length s)"
| "py_len (VDict kvs) = Inr (length kvs)"
| "py_len v = Inl TypeError"

fun comment_file_paths :: "(string \<Rightarrow> string option) \<Rightarrow> pyval list \<Rightarrow> error + string list" where
  "comment_file_paths all_story_files [] = Inr []"
| "comment_file_paths all_story_files (attachment # rest) =
     and_then (subscript attachment ''filename'') (\<lambda>filename.
     and_then (hash_key filename) (\<lambda>k.
     and_then (comment_file_paths all_story_files rest) (\<lambda>paths.
       Inr ((case k of
               KStr s \<Rightarrow> (case all_story_files s of None \<Rightarrow> [] | Some p \<Rightarrow> [p])
             | KInt i \<Rightarrow> []
             | KNone \<Rightarrow> []) @ paths))))"

text \<open>
  The Markdown link for one uploaded file (an image link when the content type starts with
  \<^verbatim>\<open>image/\<close>). The f-string formats the file name and the URL as \<^verbatim>\<open>str\<close> does.
\<close>

fun startswith_image :: "pyval \<Rightarrow> error + bool" where
  "startswith_image (VStr i s) = Inr (take 6 s = ''image/'')"
| "startswith_image v = Inl AttributeError"

definition attachment_string :: "pyval \<times> pyval \<Rightarrow> error + string" where
  "attachment_string p =
     (case p of (file_entity, attachment) \<Rightarrow>
        and_then (subscript file_entity ''filename'') (\<lambda>filename.
        and_then (subscript file_entity ''url'') (\<lambda>url.
        and_then (subscript attachment ''content_type'') (\<lambda>content_type.
        and_then (startswith_image content_type) (\<lambda>is_image.
        and_then (py_str filename) (\<lambda>f.
        and_then (py_str url) (\<lambda>u.
          Inr ((if is_image then ''!'' else '''') @ ''['' @ f @ '']('' @ u @ '')''))))))))"

text \<open>\<^verbatim>\<open>comment["text"] += s\<close>: a string grows; a list is extended by the characters.\<close>

definition append_text :: "pydict \<Rightarrow> string \<Rightarrow> error + pydict" where
  "append_text comment s =
     and_then (dict_index comment ''text'') (\<lambda>text.
       case text of
         VStr i t \<Rightarrow> Inr (AList.update ''text'' (VStr OtherObj (t @ s)) comment)
       | VList xs \<Rightarrow> Inr (AList.update ''text'' (VList (xs @ map (\<lambda>c. VStr OtherObj [c]) s)) comment)
       | VNone \<Rightarrow> Inl TypeError
       | VBool b \<Rightarrow> Inl TypeError
       | VInt n \<Rightarrow> Inl TypeError
       | VDict kvs \<Rightarrow> Inl TypeError)"

text \<open>
  Uploading the files of one comment: simulated in a dry run, otherwise by the tracker,
  and then the uploaded files are appended to the Ledger at once.
\<close>

definition upload_files :: "'b env \<Rightarrow> bool \<Rightarrow> string list \<Rightarrow> ('b, pyval list \<times> pyval list) prog" where
  "upload_files env dry paths w =
     (if dry then
        (Inr (map (\<lambda>path. VDict [(''filename'', VStr OtherObj (basename path)),
                                  (''url'', VStr OtherObj (''https://mock-url/'' @ basename path))])
                paths, []), w)
      else
        (case sc_upload_files env paths (api w) of
           (Inl e, b) \<Rightarrow> (Inl e, w\<lparr>api := b\<rparr>)
         | (Inr (successful_files, failed_files), b) \<Rightarrow>
             (Inr (successful_files, failed_files),
              write_to_imported_entities_csv successful_files ModeA (w\<lparr>api := b\<rparr>))))"

text \<open>
  The body of the loop over a story's comments. It yields the comment as it is left (its
  \<^verbatim>\<open>attachments\<close> popped, its text extended) and the files that failed to upload; failed files
  end the loop (\<^verbatim>\<open>break\<close>).
\<close>

definition process_comment_files ::
    "'b env \<Rightarrow> bool \<Rightarrow> (string \<Rightarrow> string option) \<Rightarrow> pyval \<Rightarrow> ('b, pyval \<times> pyval list) prog" where
  "process_comment_files env dry all_story_files comment =
     (case comment of
        VDict c \<Rightarrow>
          (let comment_attachments = dict_get_default c ''attachments'' (VList []);
               c1 = AList.delete ''attachments'' c
           in if \<not> truthy comment_attachments then pure_w (VDict c1, [])
              else
                bind_w (lift_w (py_len comment_attachments)) (\<lambda>n.
                bind_w (lift_w (py_iter comment_attachments)) (\<lambda>attachments.
                bind_w (lift_w (comment_file_paths all_story_files attachments)) (\<lambda>paths.
                  if paths \<noteq> [] then
                    bind_w (upload_files env dry paths) (\<lambda>(successful_files, failed_files).
                      if failed_files \<noteq> [] then pure_w (VDict c1, failed_files)
                      else
                        bind_w (lift_w (map_err attachment_string (zip successful_files attachments)))
                          (\<lambda>file_attachment_strings.
                        bind_w (lift_w (if file_attachment_strings \<noteq> []
                                        then append_text c1
                                               ([newline, newline]
                                                @ join_with [newline] file_attachment_strings
                                                @ [newline])
                                        else Inr c1)) (\<lambda>c2.
                          pure_w (VDict c2, []))))
                  else pure_w (VDict c1, [])))))
      | VList xs \<Rightarrow> lift_w (Inl TypeError)
      | VNone \<Rightarrow> lift_w (Inl AttributeError)
      | VBool b \<Rightarrow> lift_w (Inl AttributeError)
      | VInt n \<Rightarrow> lift_w (Inl AttributeError)
      | VStr i s \<Rightarrow> lift_w (Inl AttributeError))"

fun story_comments_loop ::
    "'b env \<Rightarrow> bool \<Rightarrow> (string \<Rightarrow> string option) \<Rightarrow> pyval list \<Rightarrow> ('b, pyval list \<times> pyval list) prog" where
  "story_comments_loop env dry all_story_files [] = pure_w ([], [])"
| "story_comments_loop env dry all_story_files (comment # rest) =
     bind_w (process_comment_files env dry all_story_files comment) (\<lambda>(comment1, failed_files).
       if failed_files \<noteq> [] then pure_w (comment1 # rest, failed_files)
       else
         bind_w (story_comments_loop env dry all_story_files rest) (\<lambda>(comments, failed).
           pure_w (comment1 # comments, failed)))"

text \<open>\<^verbatim>\<open>failed["story_id"] = pt_id\<close> and the file name of a failed file, joined into the message.\<close>

fun tag_failed_file :: "pyval \<Rightarrow> pyval \<Rightarrow> error + pyval" where
  "tag_failed_file pt_id (VDict f) = Inr (VDict (AList.update ''story_id'' pt_id f))"
| "tag_failed_file pt_id v = Inl TypeError"

definition failed_file_name :: "pyval \<Rightarrow> error + string" where
  "failed_file_name f =
     and_then (subscript f ''filename'') (\<lambda>n.
       case n of VStr i s \<Rightarrow> Inr s
       | VNone \<Rightarrow> Inl TypeError | VBool b \<Rightarrow> Inl TypeError | VInt k \<Rightarrow> Inl TypeError
       | VList xs \<Rightarrow> Inl TypeError | VDict kvs \<Rightarrow> Inl TypeError)"

text \<open>
  The body of the loop over the batch: the story as it is left, and its failed files (none
  when the story goes on to creation).
\<close>

definition process_story_files :: "'b env \<Rightarrow> bool \<Rightarrow> item \<Rightarrow> ('b, item \<times> pyval list) prog" where
  "process_story_files env dry story =
     bind_w (lift_w (dict_index (entity story) ''external_id'')) (\<lambda>pt_id.
       if \<not> isdir env pt_id then pure_w (story, [])
       else
         bind_w (lift_w (py_iter (dict_get_default (entity story) ''comments'' (VList [])))) (\<lambda>cs.
         bind_w (story_comments_loop env dry (walk env pt_id) cs) (\<lambda>(comments, failed_files).
           let story1 = (if cs = [] then story
                         else story\<lparr>entity := AList.update ''comments'' (VList comments) (entity story)\<rparr>)
           in if failed_files \<noteq> [] then
                bind_w (lift_w (map_err (tag_failed_file pt_id) failed_files)) (\<lambda>tagged.
                bind_w (lift_w (map_err failed_file_name tagged)) (\<lambda>names.
                  pure_w (story1\<lparr>error_message :=
                             Some (''Failed to upload files: '' @ join_with '', '' names)\<rparr>,
                          tagged)))
              else pure_w (story1, []))))"

fun process_files_loop ::
    "'b env \<Rightarrow> bool \<Rightarrow> item list \<Rightarrow> ('b, item list \<times> item list \<times> pyval list) prog" where
  "process_files_loop env dry [] = pure_w ([], [], [])"
| "process_files_loop env dry (story # rest) =
     bind_w (process_story_files env dry story) (\<lambda>(story1, failed_files).
     bind_w (process_files_loop env dry rest) (\<lambda>(successful_stories, failed_stories, all_failed_files).
       pure_w (if failed_files \<noteq> []
               then (successful_stories, story1 # failed_stories, failed_files @ all_failed_files)
               else (story1 # successful_stories, failed_stories, all_failed_files))))"

definition process_files_for_stories :: "'b env \<Rightarrow> bool \<Rightarrow> item list \<Rightarrow> ('b, item list) prog" where
  "process_files_for_stories env dry stories_batch =
     bind_w (process_files_loop env dry stories_batch)
       (\<lambda>(successful_stories, failed_stories, all_failed_files).
         if \<not> dry then
           bind_w (write_failed_files_csv all_failed_files) (\<lambda>u.
           bind_w (effect_w (write_failed_stories failed_stories)) (\<lambda>u.
             pure_w successful_stories))
         else pure_w successful_stories)"

text \<open>\<^verbatim>\<open>clean_story\<close>: \<^verbatim>\<open>comment.pop("attachments", None)\<close> on every comment.\<close>

fun pop_attachments :: "pyval \<Rightarrow> error + pyval" where
  "pop_attachments (VDict c) = Inr (VDict (AList.delete ''attachments'' c))"
| "pop_attachments (VList xs) = Inl TypeError"
| "pop_attachments v = Inl AttributeError"

definition clean_story :: "item \<Rightarrow> error + item" where
  "clean_story story =
     (case map_of (entity story) ''comments'' of
        None \<Rightarrow> Inr story
      | Some cs \<Rightarrow>
          and_then (py_iter cs) (\<lambda>comments.
          and_then (map_err pop_attachments comments) (\<lambda>comments1.
            Inr (if comments = [] then story
                 else story\<lparr>entity := AList.update ''comments'' (VList comments1) (entity story)\<rparr>))))"

section \<open>The live emitter\<close>

text \<open>
  \<^verbatim>\<open>sc_creator\<close>. Its first statement, \<^verbatim>\<open>write_to_imported_entities_csv([], mode='w')\<close>,
  returns at once on the empty list. In the loop over the other types, every failure (of
  the call, or the \<^verbatim>\<open>RuntimeError\<close> for an unknown type) is caught, and the handler calls
  \<^verbatim>\<open>write_failed_stories\<close> with two arguments, which raises \<^verbatim>\<open>TypeError\<close> out of
  \<^verbatim>\<open>sc_creator\<close>.
\<close>

definition create_item :: "'b env \<Rightarrow> item \<Rightarrow> ('b, item) prog" where
  "create_item env item w =
     (case (if type item = ''epic'' then sc_post env ''/epics'' (VDict (entity item)) (api w)
            else if type item = ''iteration'' then sc_post env ''/iterations'' (VDict (entity item)) (api w)
            else if type item = ''label'' then sc_post env ''/labels'' (VDict (entity item)) (api w)
            else (Inl (RuntimeError (''Unknown entity type '' @ type item)), api w)) of
        (Inr res, b) \<Rightarrow>
          (Inr (item\<lparr>imported_entity := Some res\<rparr>),
           write_to_imported_entities_csv [res] ModeA (w\<lparr>api := b\<rparr>))
      | (Inl e, b) \<Rightarrow> (Inl TypeError, w\<lparr>api := b\<rparr>))"

fun create_non_stories :: "'b env \<Rightarrow> item list \<Rightarrow> ('b, item list) prog" where
  "create_non_stories env [] = pure_w []"
| "create_non_stories env (item # rest) =
     (if type item \<noteq> ''story'' then
        bind_w (create_item env item) (\<lambda>item1.
        bind_w (create_non_stories env rest) (\<lambda>created. pure_w (item1 # created)))
      else create_non_stories env rest)"

text \<open>
  \<^verbatim>\<open>process_batch\<close>, with the stories it adds to \<^verbatim>\<open>all_successful_items\<close> as its result. The
  attachments and \<^verbatim>\<open>clean_story\<close> run outside the \<^verbatim>\<open>try\<close>. When the bulk call fails (or its
  answer cannot be iterated), every story of the batch is written to the failed-stories
  file and none is created: there is no second attempt.
\<close>

definition process_batch :: "'b env \<Rightarrow> item list \<Rightarrow> ('b, item list) prog" where
  "process_batch env batch_stories =
     (if batch_stories = [] then pure_w []
      else
        bind_w (process_files_for_stories env False batch_stories) (\<lambda>processed0.
        bind_w (lift_w (map_err clean_story processed0)) (\<lambda>processed_stories.
          (\<lambda>w. case sc_post env ''/stories/bulk''
                       (VDict [(''stories'', VList (map (\<lambda>s. VDict (entity s)) processed_stories))])
                       (api w) of
                  (Inl e, b) \<Rightarrow> (Inr [], write_failed_stories processed_stories (w\<lparr>api := b\<rparr>))
                | (Inr created_entities, b) \<Rightarrow>
                    (case py_iter created_entities of
                       Inl e \<Rightarrow> (Inr [], write_failed_stories processed_stories (w\<lparr>api := b\<rparr>))
                     | Inr created \<Rightarrow>
                         (Inr (map (\<lambda>(c, story). story\<lparr>imported_entity := Some c\<rparr>)
                                 (zip created processed_stories)),
                          write_to_imported_entities_csv created ModeA (w\<lparr>api := b\<rparr>)))))))"

text \<open>The loop that fills \<^verbatim>\<open>batch_stories\<close>, and the call for the stories that remain.\<close>

fun story_batches :: "'b env \<Rightarrow> item list \<Rightarrow> item list \<Rightarrow> ('b, item list) prog" where
  "story_batches env [] batch_stories = process_batch env batch_stories"
| "story_batches env (item # rest) batch_stories =
     (if type item = ''story'' then
        (if length (batch_stories @ [item]) \<ge> BATCH_SIZE then
           bind_w (process_batch env (batch_stories @ [item])) (\<lambda>created.
           bind_w (story_batches env rest []) (\<lambda>more. pure_w (created @ more)))
         else story_batches env rest (batch_stories @ [item]))
      else story_batches env rest batch_stories)"

definition sc_creator :: "'b env \<Rightarrow> item list \<Rightarrow> ('b, item list) prog" where
  "sc_creator env items =
     bind_w (create_non_stories env items) (\<lambda>others.
     bind_w (story_batches env items []) (\<lambda>created_stories.
       pure_w (others @ created_stories)))"

text \<open>
  \<^verbatim>\<open>create_stories\<close>, which nothing in the importer calls: the bulk call, and when it fails
  one call for each story. \<^verbatim>\<open>str(e)\<close> of an exception is its message.
\<close>

fun error_text :: "error \<Rightarrow> string" where
  "error_text (RuntimeError m) = m"
| "error_text (ApiError m) = m"
| "error_text e = []"

fun create_one_by_one :: "'b env \<Rightarrow> item list \<Rightarrow> 'b \<Rightarrow> (item list \<times> item list) \<times> 'b" where
  "create_one_by_one env [] b = (([], []), b)"
| "create_one_by_one env (story # rest) b =
     (case sc_post env ''/stories'' (VDict (entity story)) b of
        (Inr created, b1) \<Rightarrow>
          (case create_one_by_one env rest b1 of
             ((successful_stories, failed_stories), b2) \<Rightarrow>
               ((story\<lparr>imported_entity := Some created\<rparr> # successful_stories, failed_stories), b2))
      | (Inl story_error, b1) \<Rightarrow>
          (case create_one_by_one env rest b1 of
             ((successful_stories, failed_stories), b2) \<Rightarrow>
               ((successful_stories,
                 story\<lparr>error_message := Some (error_text story_error)\<rparr> # failed_stories), b2)))"

definition create_stories_fallback :: "'b env \<Rightarrow> item list \<Rightarrow> 'b \<Rightarrow> ('b, item list) prog" where
  "create_stories_fallback env stories b w =
     (case create_one_by_one env stories b of
        ((successful_stories, failed_stories), b1) \<Rightarrow>
          (Inr successful_stories, write_failed_stories failed_stories (w\<lparr>api := b1\<rparr>)))"

definition create_stories :: "'b env \<Rightarrow> item list \<Rightarrow> ('b, item list) prog" where
  "create_stories env stories w =
     (case sc_post env ''/stories/bulk''
             (VDict [(''stories'', VList (map (\<lambda>s. VDict (entity s)) stories))]) (api w) of
        (Inl e, b) \<Rightarrow> create_stories_fallback env stories b w
      | (Inr created_entities, b) \<Rightarrow>
          (case py_iter created_entities of
             Inl e \<Rightarrow> create_stories_fallback env stories b w
           | Inr created \<Rightarrow>
               (Inr (map (\<lambda>(c, story). story\<lparr>imported_entity := Some c\<rparr>) (zip created stories)),
                w\<lparr>api := b\<rparr>)))"

section \<open>The collector\<close>

text \<open>
  \<^verbatim>\<open>EntityCollector\<close>: its buckets. \<^verbatim>\<open>iteration_strings\<close> is a Python set (of hashed
  values). \<^verbatim>\<open>collect\<close> changes the collector and then returns or raises, so the model
  returns the collector together with the outcome.
\<close>

record collector =
  stories :: "item list"
  epics :: "item list"
  files :: "item list"
  iteration_strings :: "pykey set"
  iterations :: "item list"
  labels :: "item list"
  is_dry_run :: bool

definition collect :: "collector \<Rightarrow> item \<Rightarrow> collector \<times> (error + (string \<times> nat) list)" where
  "collect self item =
     (if type item = ''story'' then
        (let self1 = self\<lparr>stories := stories self @ [item]\<rparr> in
         case iteration item of
           None \<Rightarrow> (self1, Inl KeyError)
         | Some it \<Rightarrow>
             if truthy it then
               (case hash_key it of
                  Inl e \<Rightarrow> (self1, Inl e)
                | Inr k \<Rightarrow>
                    (self1\<lparr>iteration_strings := insert k (iteration_strings self1)\<rparr>,
                     Inr [(type item, 1)]))
             else (self1, Inr [(type item, 1)]))
      else if type item = ''epic'' then
        (self\<lparr>epics := epics self @ [item]\<rparr>, Inr [(type item, 1)])
      else if type item = ''label'' then
        (self\<lparr>labels := labels self @ [item]\<rparr>, Inr [(type item, 1)])
      else (self, Inl (RuntimeError (''Unknown entity type '' @ type item))))"

section \<open>Commit\<close>

text \<open>
  \<^verbatim>\<open>str.split("|")\<close>, and the request for the iteration of one iteration key: the key is
  unpacked into exactly three parts (\<^verbatim>\<open>ValueError\<close> otherwise).
\<close>

fun split_on :: "char \<Rightarrow> string \<Rightarrow> string list" where
  "split_on sep [] = [[]]"
| "split_on sep (c # cs) =
     (if c = sep then [] # split_on sep cs
      else (case split_on sep cs of
              [] \<Rightarrow> [[c]]
            | p # ps \<Rightarrow> (c # p) # ps))"

fun iteration_entity :: "pykey \<Rightarrow> error + item" where
  "iteration_entity (KStr iteration_string) =
     (case split_on (CHR ''|'') iteration_string of
        [pt_id, start_date, end_date] \<Rightarrow>
          Inr \<lparr>type = ''iteration'',
               entity = [(''name'', VStr OtherObj (''PT '' @ pt_id)),
                         (''start_date'', VStr OtherObj start_date),
                         (''end_date'', VStr OtherObj end_date)],
               iteration = None,
               pt_iteration_id = Some (VStr OtherObj pt_id),
               parsed_row = None,
               imported_entity = None,
               error_message = None\<rparr>
      | _ \<Rightarrow> Inl ValueError)"
| "iteration_entity (KInt i) = Inl AttributeError"
| "iteration_entity KNone = Inl AttributeError"

text \<open>
  \<^verbatim>\<open>written_entities\<close> is a set of pairs of a type and a hashed id. The list comprehensions
  of \<^verbatim>\<open>commit\<close>: the created entities of a list of records, the key of an entity, the
  entities not written yet.
\<close>

type_synonym written = "(string \<times> pykey) set"

definition imported_entities :: "item list \<Rightarrow> error + pyval list" where
  "imported_entities items = map_err (\<lambda>item. item_index (imported_entity item)) items"

definition entity_key :: "pyval \<Rightarrow> error + pykey" where
  "entity_key e = and_then (subscript e ''id'') hash_key"

definition entity_keys :: "string \<Rightarrow> pyval list \<Rightarrow> error + (string \<times> pykey) list" where
  "entity_keys t entities = map_err (\<lambda>e. and_then (entity_key e) (\<lambda>k. Inr (t, k))) entities"

fun new_entities :: "string \<Rightarrow> pyval list \<Rightarrow> written \<Rightarrow> error + pyval list" where
  "new_entities t [] written_entities = Inr []"
| "new_entities t (e # es) written_entities =
     and_then (entity_key e) (\<lambda>k.
     and_then (new_entities t es written_entities) (\<lambda>rest.
       Inr (if (t, k) \<notin> written_entities then e # rest else rest)))"

text \<open>The loop over the created labels that prints the URL of the run label.\<close>

definition run_label_url :: "string \<Rightarrow> item \<Rightarrow> error + unit" where
  "run_label_url current_datetime label =
     and_then (dict_index (entity label) ''name'') (\<lambda>name.
       if py_eq_str name (PIVOTAL_TO_SHORTCUT_RUN_LABEL current_datetime) then
         and_then (item_index (imported_entity label)) (\<lambda>imported.
         and_then (subscript imported ''app_url'') (\<lambda>label_url. Inr ()))
       else Inr ())"

text \<open>
  The state of \<^verbatim>\<open>commit\<close> between its phases: the collector, \<^verbatim>\<open>written_entities\<close> and
  \<^verbatim>\<open>created_entities\<close>. The emitter is a parameter, as in the source (\<^verbatim>\<open>self.emitter\<close>).
\<close>

type_synonym commit_state = "collector \<times> written \<times> pyval list"

type_synonym 'b emitter = "item list \<Rightarrow> ('b, item list) prog"

text \<open>Phase 1, the labels: outside a dry run the Ledger is rewritten (mode \<^verbatim>\<open>'w'\<close>).\<close>

definition commit_labels :: "string \<Rightarrow> 'b emitter \<Rightarrow> commit_state \<Rightarrow> ('b, commit_state) prog" where
  "commit_labels current_datetime emitter st =
     (case st of (self, written_entities, created_entities) \<Rightarrow>
        bind_w (emitter (labels self)) (\<lambda>labels1.
        bind_w (if \<not> is_dry_run self then
                  bind_w (lift_w (imported_entities labels1)) (\<lambda>label_entities.
                  bind_w (effect_w (write_to_imported_entities_csv label_entities ModeW)) (\<lambda>u.
                  bind_w (lift_w (entity_keys ''label'' label_entities)) (\<lambda>ks.
                    pure_w (written_entities \<union> set ks))))
                else pure_w written_entities) (\<lambda>written1.
        bind_w (lift_w (imported_entities labels1)) (\<lambda>created.
        bind_w (lift_w (map_err (run_label_url current_datetime) labels1)) (\<lambda>u.
          pure_w (self\<lparr>labels := labels1\<rparr>, written1, created_entities @ created))))))"

text \<open>Phase 2, the epics; phase 3, the iterations, one for each iteration key.\<close>

definition record_created :: "string \<Rightarrow> bool \<Rightarrow> item list \<Rightarrow> written \<Rightarrow> ('b, written) prog" where
  "record_created t dry items written_entities =
     (if \<not> dry then
        bind_w (lift_w (imported_entities items)) (\<lambda>entities.
        bind_w (lift_w (new_entities t entities written_entities)) (\<lambda>new.
        bind_w (effect_w (write_to_imported_entities_csv new ModeA)) (\<lambda>u.
        bind_w (lift_w (entity_keys t new)) (\<lambda>ks.
          pure_w (written_entities \<union> set ks)))))
      else pure_w written_entities)"

definition commit_epics :: "'b emitter \<Rightarrow> commit_state \<Rightarrow> ('b, commit_state) prog" where
  "commit_epics emitter st =
     (case st of (self, written_entities, created_entities) \<Rightarrow>
        bind_w (emitter (epics self)) (\<lambda>epics1.
        bind_w (record_created ''epic'' (is_dry_run self) epics1 written_entities) (\<lambda>written1.
        bind_w (lift_w (imported_entities epics1)) (\<lambda>created.
          pure_w (self\<lparr>epics := epics1\<rparr>, written1, created_entities @ created)))))"

text \<open>
  The iteration keys are a Python set, iterated in an order the program does not choose:
  the order is a parameter (a list of the elements of \<^verbatim>\<open>iteration_strings\<close>).
\<close>

definition commit_iterations :: "'b emitter \<Rightarrow> pykey list \<Rightarrow> commit_state \<Rightarrow> ('b, commit_state) prog" where
  "commit_iterations emitter iteration_order st =
     (case st of (self, written_entities, created_entities) \<Rightarrow>
        bind_w (lift_w (map_err iteration_entity iteration_order)) (\<lambda>iteration_entities.
        bind_w (emitter iteration_entities) (\<lambda>iterations1.
        bind_w (record_created ''iteration'' (is_dry_run self) iterations1 written_entities) (\<lambda>written1.
        bind_w (lift_w (imported_entities iterations1)) (\<lambda>created.
          pure_w (self\<lparr>iterations := iterations1\<rparr>, written1, created_entities @ created))))))"

text \<open>
  \<^verbatim>\<open>process_story_batch\<close>: the attachments run outside the \<^verbatim>\<open>try\<close>; when the emitter raises,
  the stories are written to the failed-stories file and the batch counts as empty.
\<close>

definition process_story_batch :: "'b env \<Rightarrow> 'b emitter \<Rightarrow> bool \<Rightarrow> item list \<Rightarrow> ('b, item list) prog" where
  "process_story_batch env emitter dry batch =
     bind_w (process_files_for_stories env dry batch) (\<lambda>processed_stories.
       (\<lambda>w. case emitter processed_stories w of
               (Inr created_stories, w1) \<Rightarrow> (Inr created_stories, w1)
             | (Inl e, w1) \<Rightarrow> (Inr [], write_failed_stories processed_stories w1)))"

text \<open>The loop over a created batch that picks the stories not yet written.\<close>

fun new_stories_loop :: "item list \<Rightarrow> written \<Rightarrow> error + pyval list \<times> written" where
  "new_stories_loop [] written_entities = Inr ([], written_entities)"
| "new_stories_loop (story # rest) written_entities =
     and_then (item_index (imported_entity story)) (\<lambda>e.
     and_then (entity_key e) (\<lambda>k.
       if (''story'', k) \<notin> written_entities then
         and_then (new_stories_loop rest (insert (''story'', k) written_entities)) (\<lambda>(new_stories, written1).
           Inr (e # new_stories, written1))
       else new_stories_loop rest written_entities))"

text \<open>
  Phase 4, one batch: linkage, creation, Ledger. Besides the state it yields the batch as
  it is handed to \<^verbatim>\<open>process_story_batch\<close>, that is as it is submitted.
\<close>

definition commit_story_batch ::
    "'b env \<Rightarrow> 'b emitter \<Rightarrow> commit_state \<Rightarrow> item list \<Rightarrow> ('b, commit_state \<times> item list) prog" where
  "commit_story_batch env emitter st batch =
     (case st of (self, written_entities, created_entities) \<Rightarrow>
        bind_w (lift_w (assign_stories_to_epics batch (epics self))) (\<lambda>batch1.
        bind_w (lift_w (assign_stories_to_iterations batch1 (iterations self))) (\<lambda>batch2.
        bind_w (process_story_batch env emitter (is_dry_run self) batch2) (\<lambda>created_batch.
          if \<not> is_dry_run self then
            bind_w (lift_w (new_stories_loop created_batch written_entities)) (\<lambda>(new_stories, written1).
            bind_w (effect_w (write_to_imported_entities_csv new_stories ModeA)) (\<lambda>u.
              pure_w ((self, written1, created_entities @ new_stories), batch2)))
          else
            bind_w (lift_w (imported_entities created_batch)) (\<lambda>created.
              pure_w ((self, written_entities, created_entities @ created), batch2))))))"

text \<open>\<^verbatim>\<open>self.stories[i:i + BATCH_SIZE]\<close> for \<^verbatim>\<open>i\<close> in \<^verbatim>\<open>range(0, len(self.stories), BATCH_SIZE)\<close>.\<close>

function batches_of :: "nat \<Rightarrow> 'a list \<Rightarrow> 'a list list" where
  "batches_of n xs = (if n = 0 \<or> xs = [] then [] else take n xs # batches_of n (drop n xs))"
  by pat_completeness auto
termination
  by (relation "measure (\<lambda>(n, xs). length xs)") auto

fun commit_story_batches ::
    "'b env \<Rightarrow> 'b emitter \<Rightarrow> commit_state \<Rightarrow> item list list \<Rightarrow> ('b, commit_state \<times> item list list) prog" where
  "commit_story_batches env emitter st [] = pure_w (st, [])"
| "commit_story_batches env emitter st (batch # rest) =
     bind_w (commit_story_batch env emitter st batch) (\<lambda>(st1, submitted).
     bind_w (commit_story_batches env emitter st1 rest) (\<lambda>(st2, more).
       pure_w (st2, submitted # more)))"

text \<open>
  \<^verbatim>\<open>EntityCollector.commit\<close>. It returns \<^verbatim>\<open>created_entities\<close>; the model also gives the
  lists that \<^verbatim>\<open>commit\<close> assigns to \<^verbatim>\<open>self.labels\<close>, \<^verbatim>\<open>self.epics\<close> and \<^verbatim>\<open>self.iterations\<close>, and
  the story batches as they were submitted.
\<close>

record commit_result =
  created_entities :: "pyval list"
  labels_after :: "item list"
  epics_after :: "item list"
  iterations_after :: "item list"
  submitted_batches :: "item list list"

definition commit ::
    "string \<Rightarrow> 'b env \<Rightarrow> 'b emitter \<Rightarrow> pykey list \<Rightarrow> collector \<Rightarrow> ('b, commit_result) prog" where
  "commit current_datetime env emitter iteration_order self =
     bind_w (commit_labels current_datetime emitter (self, {}, [])) (\<lambda>st1.
     bind_w (commit_epics emitter st1) (\<lambda>st2.
     bind_w (commit_iterations emitter iteration_order st2) (\<lambda>st3.
     bind_w (commit_story_batches env emitter st3 (batches_of BATCH_SIZE (stories (fst st3))))
       (\<lambda>(st4, submitted).
         pure_w \<lparr>created_entities = snd (snd st4),
                 labels_after = labels (fst st4),
                 epics_after = epics (fst st4),
                 iterations_after = iterations (fst st4),
                 submitted_batches = submitted\<rparr>))))"

section \<open>Notions used by the statements about commit\<close>

text \<open>
  The iteration key of a source iteration; a story record carries a source iteration when
  its \<^verbatim>\<open>pt_iteration_id\<close> is the (non-empty) id and its \<^verbatim>\<open>iteration\<close> is the key, as the
  builder leaves them. The request \<^verbatim>\<open>commit\<close> makes for the iteration of a key.
\<close>

definition iteration_key :: "string \<Rightarrow> string \<Rightarrow> string \<Rightarrow> string" where
  "iteration_key pt_id start_date end_date = pt_id @ ''|'' @ start_date @ ''|'' @ end_date"

definition in_iteration :: "item \<Rightarrow> string \<Rightarrow> string \<Rightarrow> string \<Rightarrow> bool" where
  "in_iteration story pt_id start_date end_date \<longleftrightarrow>
     pt_id \<noteq> [] \<and>
     (\<exists>i. pt_iteration_id story = Some (VStr i pt_id)) \<and>
     (\<exists>j. iteration story = Some (VStr j (iteration_key pt_id start_date end_date)))"

definition iteration_payload :: "string \<Rightarrow> string \<Rightarrow> string \<Rightarrow> pydict" where
  "iteration_payload pt_id start_date end_date =
     [(''name'', VStr OtherObj (''PT '' @ pt_id)),
      (''start_date'', VStr OtherObj start_date),
      (''end_date'', VStr OtherObj end_date)]"

text \<open>
  An emitter creates all it is given when, for records other than stories, a call that
  returns returns every record, in order, with its created entity. Both emitters of the
  importer do (the live one raises when a creation fails).
\<close>

definition creates_all :: "'b emitter \<Rightarrow> bool" where
  "creates_all emitter \<longleftrightarrow>
     (\<forall>items w created w1.
        list_all (\<lambda>x. type x \<noteq> ''story'') items \<longrightarrow>
        emitter items w = (Inr created, w1) \<longrightarrow>
        list_all2 (\<lambda>c x. \<exists>e. c = x\<lparr>imported_entity := Some e\<rparr>) created items)"

text \<open>The source iteration id of a created iteration, as a string.\<close>

definition pt_id_of :: "item \<Rightarrow> string" where
  "pt_id_of it = (case pt_iteration_id it of Some (VStr i p) \<Rightarrow> p | _ \<Rightarrow> [])"

text \<open>
  What \<^verbatim>\<open>commit\<close> does to one story before it submits it: the epic linkage, then the
  iteration linkage, with the maps of the collector's created epics and iterations.
\<close>

definition linked :: "collector \<Rightarrow> item \<Rightarrow> item \<Rightarrow> bool" where
  "linked self s sub \<longleftrightarrow>
     (\<exists>m pm s1. collect_epic_label_mapping (epics self) = Inr m \<and>
        collect_pt_iteration_mapping (iterations self) = Inr pm \<and>
        assign_story_to_epic m s = Inr s1 \<and> assign_story_to_iteration pm s1 = Inr sub)"

text \<open>
  A computation appends to the Ledger when, from every world, the Ledger it leaves begins
  with the Ledger it found, whether it returns or raises. A created record has a Ledger
  row when its created entity carries \<^verbatim>\<open>entity_type\<close> and \<^verbatim>\<open>id\<close>, the two fields
  \<^verbatim>\<open>write_to_imported_entities_csv\<close> reads.
\<close>

definition appends :: "('b, 'a) prog \<Rightarrow> bool" where
  "appends m \<longleftrightarrow> (\<forall>w. prefix (imported_entities_csv w) (imported_entities_csv (snd (m w))))"

definition has_ledger_row :: "item \<Rightarrow> bool" where
  "has_ledger_row x = (case imported_entity x of None \<Rightarrow> False | Some c \<Rightarrow> ledger_rows [c] \<noteq> [])"

text \<open>
  The calls to the tracker. In \<open>recording env\<close> the tracker of \<open>env\<close> also keeps the list
  of the calls of \<^verbatim>\<open>sc_post\<close> made so far, each with its endpoint and its payload, the calls
  that fail too. A payload is allowed for a type when every top-level attribute is in the
  allow list \<^verbatim>\<open>select_keys\<close> of the type or, for a story, is \<^verbatim>\<open>epic_id\<close>. A call is allowed
  when it sends an allowed epic to \<^verbatim>\<open>/epics\<close> or a list of allowed stories, under the key
  \<^verbatim>\<open>stories\<close>, to \<^verbatim>\<open>/stories/bulk\<close>; the allow lists say nothing about the other endpoints.
\<close>

type_synonym call = "string \<times> pyval"

definition recording :: "'b env \<Rightarrow> ('b \<times> call list) env" where
  "recording env =
     \<lparr>sc_post = (\<lambda>endpoint payload s.
                   case sc_post env endpoint payload (fst s) of
                     (r, b) \<Rightarrow> (r, (b, snd s @ [(endpoint, payload)]))),
      sc_upload_files = (\<lambda>paths s.
                   case sc_upload_files env paths (fst s) of (r, b) \<Rightarrow> (r, (b, snd s))),
      isdir = isdir env, walk = walk env\<rparr>"

definition allowed_keys :: "string \<Rightarrow> string set" where
  "allowed_keys t = set (select_keys t) \<union> (if t = ''story'' then {''epic_id''} else {})"

definition allowed_payload :: "string \<Rightarrow> pyval \<Rightarrow> bool" where
  "allowed_payload t p = (case p of VDict d \<Rightarrow> fst ` set d \<subseteq> allowed_keys t | _ \<Rightarrow> False)"

fun allowed_call :: "call \<Rightarrow> bool" where
  "allowed_call (endpoint, payload) =
     (if endpoint = ''/epics'' then allowed_payload ''epic'' payload
      else if endpoint = ''/stories/bulk'' then
        (case payload of
           VDict [(k, VList ps)] \<Rightarrow> k = ''stories'' \<and> list_all (allowed_payload ''story'') ps
         | _ \<Rightarrow> False)
      else True)"

text \<open>
  Notions of the proofs about the calls: a record whose payload is allowed when it is a
  story or an epic; a story as the builder leaves it; a story with an allowed payload; two
  records with the same type and the same attributes; a world whose recorded calls are all
  allowed; a computation that makes no call; and a computation that keeps an invariant of
  the world and, when it returns, returns a result with a given property.
\<close>

definition submittable :: "item \<Rightarrow> bool" where
  "submittable x \<longleftrightarrow>
     (type x = ''story'' \<or> type x = ''epic'' \<longrightarrow> fst ` set (entity x) \<subseteq> allowed_keys (type x))"

definition built_story :: "item \<Rightarrow> bool" where
  "built_story s \<longleftrightarrow> type s = ''story'' \<and> fst ` set (entity s) \<subseteq> set (select_keys ''story'')"

definition story_ok :: "item \<Rightarrow> bool" where
  "story_ok s \<longleftrightarrow> fst ` set (entity s) \<subseteq> allowed_keys ''story''"

definition same_keys :: "item \<Rightarrow> item \<Rightarrow> bool" where
  "same_keys s s' \<longleftrightarrow> type s' = type s \<and> fst ` set (entity s') = fst ` set (entity s)"

definition calls_ok :: "('b \<times> call list) world \<Rightarrow> bool" where
  "calls_ok w \<longleftrightarrow> list_all allowed_call (snd (api w))"

definition keeps_calls :: "('b \<times> call list, 'a) prog \<Rightarrow> bool" where
  "keeps_calls m \<longleftrightarrow> (\<forall>w. snd (api (snd (m w))) = snd (api w))"

definition maintains :: "('w \<Rightarrow> bool) \<Rightarrow> ('w \<Rightarrow> (error + 'a) \<times> 'w) \<Rightarrow> ('a \<Rightarrow> bool) \<Rightarrow> bool" where
  "maintains I m Q \<longleftrightarrow> (\<forall>w. I w \<longrightarrow> I (snd (m w)) \<and> (\<forall>x. fst (m w) = Inr x \<longrightarrow> Q x))"

section \<open>Trackers and inputs of the examples\<close>

text \<open>
  A tracker that refuses a story without a name, in a bulk call or alone, and numbers the
  stories it creates; an environment without attachments whose tracker is never reached (for
  dry runs); an empty context, collector and world.
\<close>

definition has_name :: "pyval \<Rightarrow> bool" where
  "has_name p = (case p of VDict d \<Rightarrow> map_of d ''name'' \<noteq> None | _ \<Rightarrow> False)"

definition created_story :: "nat \<Rightarrow> pyval" where
  "created_story n = VDict [(''id'', VInt (int n)), (''entity_type'', VStr OtherObj ''story'')]"

fun bulk_ids :: "pyval list \<Rightarrow> nat \<Rightarrow> pyval list" where
  "bulk_ids [] n = []"
| "bulk_ids (p # ps) n = created_story n # bulk_ids ps (Suc n)"

definition strict_post :: "string \<Rightarrow> pyval \<Rightarrow> nat \<Rightarrow> (error + pyval) \<times> nat" where
  "strict_post endpoint payload next_id =
     (if endpoint = ''/stories/bulk'' then
        (case payload of
           VDict [(k, VList ps)] \<Rightarrow>
             if list_all has_name ps then (Inr (VList (bulk_ids ps next_id)), next_id + length ps)
             else (Inl (ApiError ''400 Bad Request''), next_id)
         | _ \<Rightarrow> (Inl (ApiError ''400 Bad Request''), next_id))
      else if endpoint = ''/stories'' then
        (if has_name payload then (Inr (created_story next_id), Suc next_id)
         else (Inl (ApiError ''400 Bad Request''), next_id))
      else (Inl (ApiError ''404 Not Found''), next_id))"

definition strict_tracker :: "nat env" where
  "strict_tracker = \<lparr>sc_post = strict_post, sc_upload_files = (\<lambda>paths b. (Inr ([], []), b)),
                      isdir = (\<lambda>pt_id. False), walk = (\<lambda>pt_id. Map.empty)\<rparr>"

definition no_files :: "nat env" where
  "no_files = \<lparr>sc_post = (\<lambda>endpoint payload b. (Inl (ApiError ''offline''), b)),
                sc_upload_files = (\<lambda>paths b. (Inr ([], []), b)),
                isdir = (\<lambda>pt_id. False), walk = (\<lambda>pt_id. Map.empty)\<rparr>"

definition story_record :: "pydict \<Rightarrow> item" where
  "story_record e = \<lparr>type = ''story'', entity = e, iteration = Some VNone,
     pt_iteration_id = Some VNone, parsed_row = None, imported_entity = None, error_message = None\<rparr>"

definition fresh_world :: "nat world" where
  "fresh_world = \<lparr>api = 0, mock_global_id = 0, imported_entities_csv = [],
      failed_stories_csv = None, failed_files_csv = None\<rparr>"

definition empty_ctx :: ctx where
  "empty_ctx = \<lparr>group_id = VNone, priority_config = Map.empty,
     priority_custom_field_id = VNone, user_config = Map.empty, workflow_config = Map.empty\<rparr>"

definition empty_collector :: collector where
  "empty_collector = \<lparr>stories = [], epics = [], files = [], iteration_strings = {},
     iterations = [], labels = [], is_dry_run = True\<rparr>"

text \<open>An epic with the label \<^verbatim>\<open>alpha\<close>.\<close>

definition alpha_epic :: item where
  "alpha_epic = \<lparr>type = ''epic'',
     entity = [(''labels'', VList [label_dict OtherObj ''alpha'']), (''name'', VStr OtherObj ''E'')],
     iteration = Some VNone, pt_iteration_id = Some VNone, parsed_row = None,
     imported_entity = None, error_message = None\<rparr>"

text \<open>
  A story record as the builder leaves it for a row with a source iteration, and the
  collector (of a dry run) after the given records have been collected in turn.
\<close>

definition sprint_story :: "string \<Rightarrow> string \<Rightarrow> string \<Rightarrow> string \<Rightarrow> item" where
  "sprint_story name pt_id start_date end_date =
     \<lparr>type = ''story'',
      entity = [(''external_id'', VStr OtherObj name), (''name'', VStr OtherObj name)],
      iteration = Some (VStr OtherObj (iteration_key pt_id start_date end_date)),
      pt_iteration_id = Some (VStr OtherObj pt_id),
      parsed_row = None, imported_entity = None, error_message = None\<rparr>"

definition collected :: "item list \<Rightarrow> collector" where
  "collected items = foldl (\<lambda>self item. fst (collect self item)) empty_collector items"

text \<open>
  A tracker that creates whatever it is sent and numbers what it creates, and the collector
  of a live run after the run label, an epic and two stories of one iteration have been
  collected.
\<close>

definition numbering_post :: "string \<Rightarrow> pyval \<Rightarrow> nat \<Rightarrow> (error + pyval) \<times> nat" where
  "numbering_post endpoint payload next_id =
     (if endpoint = ''/stories/bulk'' then
        (case payload of
           VDict [(k, VList ps)] \<Rightarrow> (Inr (VList (bulk_ids ps next_id)), next_id + length ps)
         | _ \<Rightarrow> (Inl (ApiError ''400 Bad Request''), next_id))
      else (Inr (VDict [(''id'', VInt (int next_id)),
                        (''entity_type'', VStr OtherObj (butlast (tl endpoint))),
                        (''app_url'', VStr OtherObj (''https://tracker'' @ endpoint))]),
            Suc next_id))"

definition numbering_tracker :: "nat env" where
  "numbering_tracker = \<lparr>sc_post = numbering_post, sc_upload_files = (\<lambda>paths b. (Inr ([], []), b)),
                         isdir = (\<lambda>pt_id. False), walk = (\<lambda>pt_id. Map.empty)\<rparr>"

definition live_collector :: collector where
  "live_collector =
     (collected [build_run_label_entity ''T'', alpha_epic,
                 sprint_story ''A'' ''42'' ''2024-01-01'' ''2024-01-14'',
                 sprint_story ''B'' ''42'' ''2024-01-01'' ''2024-01-14''])\<lparr>is_dry_run := False\<rparr>"

text \<open>
  A world in which no call has been recorded, two rows of an export (a story and an epic
  that share the label \<^verbatim>\<open>alpha\<close>, each with a column the allow lists do not hold), and the
  top-level attributes of a payload.
\<close>

definition recording_world :: "(nat \<times> call list) world" where
  "recording_world = \<lparr>api = (0, []), mock_global_id = 0, imported_entities_csv = [],
      failed_stories_csv = None, failed_files_csv = None\<rparr>"

definition story_row :: pydict where
  "story_row = [(''story_type'', VStr OtherObj ''feature''), (''name'', VStr OtherObj ''S''),
                (''external_id'', VStr OtherObj ''7''), (''junk'', VInt 3),
                (''labels'', VList [label_dict OtherObj ''alpha''])]"

definition epic_row :: pydict where
  "epic_row = [(''story_type'', VStr OtherObj ''epic''), (''name'', VStr OtherObj ''E''),
               (''junk'', VInt 3), (''labels'', VList [label_dict OtherObj ''alpha''])]"

definition payload_keys :: "pyval \<Rightarrow> string list" where
  "payload_keys p = (case p of VDict d \<Rightarrow> map fst d | _ \<Rightarrow> [])"

text \<open>
  A story with the given labels, and a created epic with the given labels (followed, as the
  builder leaves them, by the marker label) and the given target id.
\<close>

definition labelled_story :: "string \<Rightarrow> string list \<Rightarrow> item" where
  "labelled_story name names =
     \<lparr>type = ''story'',
      entity = [(''name'', VStr OtherObj name),
                (''labels'', VList (map (label_dict OtherObj) names))],
      iteration = Some VNone, pt_iteration_id = Some VNone, parsed_row = None,
      imported_entity = None, error_message = None\<rparr>"

definition created_epic :: "string \<Rightarrow> string list \<Rightarrow> int \<Rightarrow> item" where
  "created_epic name names epic_id =
     \<lparr>type = ''epic'',
      entity = [(''name'', VStr OtherObj name),
                (''labels'', VList (map (label_dict OtherObj) names
                                    @ [label_dict LABEL_OBJ PIVOTAL_TO_SHORTCUT_LABEL]))],
      iteration = Some VNone, pt_iteration_id = Some VNone, parsed_row = None,
      imported_entity = Some (VDict [(''id'', VInt epic_id), (''entity_type'', VStr OtherObj ''epic'')]),
      error_message = None\<rparr>"

section \<open>Basic facts\<close>

lemma and_then_Inl [simp]: "and_then (Inl e) f = Inl e"
  by (simp add: and_then_def)

lemma and_then_Inr [simp]: "and_then (Inr x) f = f x"
  by (simp add: and_then_def)

lemma and_then_eq_Inr: "and_then m f = Inr y \<longleftrightarrow> (\<exists>x. m = Inr x \<and> f x = Inr y)"
  by (cases m) simp_all

lemma and_then_eq_Inl:
  "and_then m f = Inl e \<longleftrightarrow> m = Inl e \<or> (\<exists>x. m = Inr x \<and> f x = Inl e)"
  by (cases m) simp_all

section \<open>Dictionaries\<close>

lemma map_of_update [simp]:
  "map_of (AList.update k v d) k' = (if k' = k then Some v else map_of d k')"
  by (simp add: AList.update_conv')

lemma map_of_delete [simp]:
  "map_of (AList.delete k d) k' = (if k' = k then None else map_of d k')"
  by (simp add: AList.delete_conv')

section \<open>Unknown record types are refused by the collector\<close>

text \<open>
  Claim C10. A record whose type is none of story, epic and label makes \<^verbatim>\<open>collect\<close> raise
  \<^verbatim>\<open>RuntimeError\<close> and leaves the collector as it was. Moreover no call of \<^verbatim>\<open>collect\<close>,
  whatever the record, changes the \<^verbatim>\<open>iterations\<close> or the \<^verbatim>\<open>files\<close> bucket: an iteration or a
  file is never collected directly.
\<close>

theorem collect_unknown_type:
  "(type item \<notin> {''story'', ''epic'', ''label''} \<longrightarrow>
      collect self item = (self, Inl (RuntimeError (''Unknown entity type '' @ type item))))
   \<and> iterations (fst (collect self item)) = iterations self
   \<and> files (fst (collect self item)) = files self"
  by (simp add: collect_def Let_def split: option.split sum.split)

theorem collect_unknown_type_witness:
  "collect \<lparr>stories = [], epics = [], files = [], iteration_strings = {}, iterations = [],
            labels = [], is_dry_run = True\<rparr>
     \<lparr>type = ''iteration'', entity = [(''name'', VStr OtherObj ''PT 42'')], iteration = None,
      pt_iteration_id = Some (VStr OtherObj ''42''), parsed_row = None, imported_entity = None,
      error_message = None\<rparr>
   = (\<lparr>stories = [], epics = [], files = [], iteration_strings = {}, iterations = [],
       labels = [], is_dry_run = True\<rparr>,
      Inl (RuntimeError ''Unknown entity type iteration''))"
  using collect_unknown_type
    [of "\<lparr>type = ''iteration'', entity = [(''name'', VStr OtherObj ''PT 42'')],
          iteration = None, pt_iteration_id = Some (VStr OtherObj ''42''), parsed_row = None,
          imported_entity = None, error_message = None\<rparr>"
        "\<lparr>stories = [], epics = [], files = [], iteration_strings = {}, iterations = [],
          labels = [], is_dry_run = True\<rparr>"]
  by simp

section \<open>Epic linkage takes the last matching label\<close>

lemma story_label_loop_hits:
  assumes "map_err label_key ls = Inr ks" and "VNone \<notin> ran m"
  shows "story_label_loop m e ls =
     Inr (if filter (\<lambda>k. k \<in> dom m) ks = [] then e
          else AList.update ''epic_id'' (the (m (last (filter (\<lambda>k. k \<in> dom m) ks)))) e)"
  using assms
proof (induction ls arbitrary: ks e)
  case Nil
  then show ?case by simp
next
  case (Cons l ls)
  from Cons.prems(1) obtain k ks' where k: "label_key l = Inr k"
    and ks': "map_err label_key ls = Inr ks'" and ks: "ks = k # ks'"
    by (auto simp: and_then_eq_Inr)
  from k obtain label_name where n: "subscript l ''name'' = Inr label_name"
    and h: "hash_key label_name = Inr k"
    by (auto simp: label_key_def and_then_eq_Inr)
  note IH = Cons.IH [OF ks' Cons.prems(2)]
  show ?case
  proof (cases "m k")
    case None
    then have "k \<notin> dom m" by auto
    with None n h IH show ?thesis
      by (simp add: ks keyed_get_def)
  next
    case (Some v)
    then have "v \<noteq> VNone" using Cons.prems(2) by (auto simp: ran_def)
    moreover have "k \<in> dom m" using Some by auto
    ultimately show ?thesis using Some n h IH
      by (simp add: ks keyed_get_def AList.update_last)
  qed
qed

text \<open>
  The loop for any map: the test \<^verbatim>\<open>epic_id is not None\<close> passes over a label that is not a
  key of the map and over one whose value in the map is \<^verbatim>\<open>None\<close>.
\<close>

lemma story_label_loop_skips_None:
  assumes "map_err label_key ls = Inr ks"
  shows "story_label_loop m e ls =
     Inr (if filter (\<lambda>k. m k \<noteq> None \<and> m k \<noteq> Some VNone) ks = [] then e
          else AList.update ''epic_id''
                 (the (m (last (filter (\<lambda>k. m k \<noteq> None \<and> m k \<noteq> Some VNone) ks)))) e)"
  using assms
proof (induction ls arbitrary: ks e)
  case Nil
  then show ?case by simp
next
  case (Cons l ls)
  from Cons.prems(1) obtain k ks' where k: "label_key l = Inr k"
    and ks': "map_err label_key ls = Inr ks'" and ks: "ks = k # ks'"
    by (auto simp: and_then_eq_Inr)
  from k obtain label_name where n: "subscript l ''name'' = Inr label_name"
    and h: "hash_key label_name = Inr k"
    by (auto simp: label_key_def and_then_eq_Inr)
  note IH = Cons.IH [OF ks']
  show ?case
  proof (cases "m k \<noteq> None \<and> m k \<noteq> Some VNone")
    case False
    then have "(case m k of None \<Rightarrow> VNone | Some x \<Rightarrow> x) = VNone" by (auto split: option.splits)
    with False n h IH show ?thesis
      by (simp add: ks keyed_get_def)
  next
    case True
    then obtain v where v: "m k = Some v" "v \<noteq> VNone" by auto
    with True n h IH show ?thesis
      by (simp add: ks keyed_get_def AList.update_last)
  qed
qed

section \<open>The builder, step by step\<close>

lemma setdefault_labels_extend_other:
  "setdefault_labels_extend d xs = Inr d' \<Longrightarrow> k \<noteq> ''labels'' \<Longrightarrow> map_of d' k = map_of d k"
  by (auto simp: setdefault_labels_extend_def split: option.splits pyval.splits)

lemma setdefault_labels_extend_labels:
  "setdefault_labels_extend d xs = Inr d' \<Longrightarrow>
     \<exists>ls. map_of d' ''labels'' = Some (VList (ls @ xs)) \<and>
          (map_of d ''labels'' = None \<and> ls = [] \<or> map_of d ''labels'' = Some (VList ls))"
  by (auto simp: setdefault_labels_extend_def split: option.splits pyval.splits)

lemma process_workflow_state_other:
  "process_workflow_state ctx d = Inr d' \<Longrightarrow> k \<noteq> ''workflow_state_id'' \<Longrightarrow> map_of d' k = map_of d k"
  by (auto simp: process_workflow_state_def Let_def and_then_eq_Inr split: if_splits)

lemma process_tasks_other:
  "process_tasks d = Inr d' \<Longrightarrow> k \<noteq> ''tasks'' \<Longrightarrow> map_of d' k = map_of d k"
  by (auto simp: process_tasks_def Let_def and_then_eq_Inr split: if_splits)

lemma process_requester_other:
  "process_requester ctx d = Inr d' \<Longrightarrow> k \<noteq> ''requested_by_id'' \<Longrightarrow> map_of d' k = map_of d k"
  by (auto simp: process_requester_def Let_def and_then_eq_Inr split: if_splits)

lemma process_owners_other:
  "process_owners ctx d = Inr d' \<Longrightarrow> k \<noteq> ''owner_ids'' \<Longrightarrow> map_of d' k = map_of d k"
  by (auto simp: process_owners_def Let_def and_then_eq_Inr split: if_splits)

lemma process_reviewers_other:
  "process_reviewers ctx d = Inr d' \<Longrightarrow> k \<noteq> ''follower_ids'' \<Longrightarrow> k \<noteq> ''labels'' \<Longrightarrow>
     map_of d' k = map_of d k"
  by (auto simp: process_reviewers_def Let_def and_then_eq_Inr split: if_splits
           dest!: setdefault_labels_extend_other [where k = k])

lemma process_reviewers_labels:
  "process_reviewers ctx d = Inr d' \<Longrightarrow> map_of d ''labels'' = Some (VList ls) \<Longrightarrow>
     \<exists>ls'. map_of d' ''labels'' = Some (VList (ls @ ls'))"
  by (auto simp: process_reviewers_def Let_def and_then_eq_Inr split: if_splits
           dest!: setdefault_labels_extend_labels)

lemma process_priority_other:
  "process_priority ctx d = Inr d' \<Longrightarrow> k \<noteq> ''custom_fields'' \<Longrightarrow> map_of d' k = map_of d k"
  by (auto simp: process_priority_def Let_def and_then_eq_Inr split: if_splits)

lemma store_comments_other:
  "k \<noteq> ''comments'' \<Longrightarrow> map_of (store_comments cs d) k = map_of d k"
  by (simp add: store_comments_def)

lemma build_story_other:
  assumes "build_story ctx comments pt_id d = Inr (d', it)"
    and "k \<notin> {''group_id'', ''workflow_state_id'', ''tasks'', ''requested_by_id'', ''owner_ids'',
               ''follower_ids'', ''labels'', ''custom_fields'', ''comments''}"
  shows "map_of d' k = map_of d k"
proof -
  from assms(1) obtain d1 d2 d3 d4 d5 comments1 d6 where
    1: "process_workflow_state ctx (AList.update ''group_id'' (group_id ctx) d) = Inr d1" and
    2: "process_tasks d1 = Inr d2" and
    3: "process_requester ctx d2 = Inr d3" and
    4: "process_owners ctx d3 = Inr d4" and
    5: "process_reviewers ctx d4 = Inr d5" and
    6: "process_review_comment d5 comments = Inr comments1" and
    7: "process_priority ctx d5 = Inr d6" and
    8: "d' = store_comments comments1 d6"
    by (auto simp: build_story_def and_then_eq_Inr)
  from assms(2) show ?thesis
    unfolding 8
    using process_workflow_state_other [OF 1, of k] process_tasks_other [OF 2, of k]
      process_requester_other [OF 3, of k] process_owners_other [OF 4, of k]
      process_reviewers_other [OF 5, of k] process_priority_other [OF 7, of k]
      store_comments_other [of k comments1 d6]
    by simp
qed

lemma build_story_labels:
  assumes "build_story ctx comments pt_id d = Inr (d', it)"
    and "map_of d ''labels'' = Some (VList ls)"
  shows "\<exists>ls'. map_of d' ''labels'' = Some (VList (ls @ ls'))"
proof -
  from assms(1) obtain d1 d2 d3 d4 d5 comments1 d6 where
    1: "process_workflow_state ctx (AList.update ''group_id'' (group_id ctx) d) = Inr d1" and
    2: "process_tasks d1 = Inr d2" and
    3: "process_requester ctx d2 = Inr d3" and
    4: "process_owners ctx d3 = Inr d4" and
    5: "process_reviewers ctx d4 = Inr d5" and
    6: "process_review_comment d5 comments = Inr comments1" and
    7: "process_priority ctx d5 = Inr d6" and
    8: "d' = store_comments comments1 d6"
    by (auto simp: build_story_def and_then_eq_Inr)
  have "map_of d4 ''labels'' = Some (VList ls)"
    using process_workflow_state_other [OF 1, of "''labels''"] process_tasks_other [OF 2, of "''labels''"]
      process_requester_other [OF 3, of "''labels''"] process_owners_other [OF 4, of "''labels''"] assms(2)
    by simp
  from process_reviewers_labels [OF 5 this] obtain ls' where
    "map_of d5 ''labels'' = Some (VList (ls @ ls'))" by blast
  then show ?thesis
    unfolding 8
    using process_priority_other [OF 7, of "''labels''"] store_comments_other [of "''labels''" comments1 d6]
    by simp
qed

lemma map_of_project_keys:
  "map_of (project_keys ks d) k = (if k \<in> set ks then map_of d k else None)"
  by (induction ks) (auto simp: project_keys_def split: option.splits)

lemma keys_project_keys: "fst ` set (project_keys ks d) \<subseteq> set ks"
  by (induction ks) (auto simp: project_keys_def split: option.splits)

lemma build_entity_Inr:
  assumes "build_entity now ctx d = Inr r"
  obtains d1 st cs comments d2 d3 it where
    "setdefault_labels_extend d
       [label_dict LABEL_OBJ PIVOTAL_TO_SHORTCUT_LABEL,
        label_dict RUN_LABEL_OBJ (PIVOTAL_TO_SHORTCUT_RUN_LABEL now)] = Inr d1"
    "dict_index d1 ''story_type'' = Inr st"
    "py_iter (dict_get_default d1 ''comments'' (VList [])) = Inr cs"
    "map_err (process_comment ctx) cs = Inr comments"
    "process_release d1 = Inr d2"
    "(if \<not> py_eq_str st ''epic''
      then build_story ctx comments (dict_get_default d2 ''pt_iteration_id'' VNone) d2
      else Inr (build_epic ctx d2, VNone)) = Inr (d3, it)"
    "type r = (if py_eq_str st ''epic'' then ''epic'' else ''story'')"
    "entity r = project_keys (select_keys (type r)) d3"
    "iteration r = Some it"
    "pt_iteration_id r = Some (dict_get_default d2 ''pt_iteration_id'' VNone)"
  using assms
  by (auto simp: build_entity_def and_then_eq_Inr Let_def split: if_splits)

lemma process_release_other:
  "process_release d = Inr d' \<Longrightarrow> k \<noteq> ''story_type'' \<Longrightarrow> k \<noteq> ''labels'' \<Longrightarrow>
     map_of d' k = map_of d k"
  by (auto simp: process_release_def and_then_eq_Inr split: if_splits
           dest!: setdefault_labels_extend_other [where k = k])

lemma dict_get_cong: "map_of d k = map_of d' k \<Longrightarrow> dict_get d k = dict_get d' k"
  by (simp add: dict_get_def)

lemma dict_get_default_cong:
  "map_of d k = map_of d' k \<Longrightarrow> dict_get_default d k x = dict_get_default d' k x"
  by (simp add: dict_get_default_def)

lemma sum_cases_Inl: "(\<exists>e. x = Inl e) \<longleftrightarrow> (\<forall>r. x \<noteq> Inr r)"
  by (cases x) auto

lemmas build_entity_defs =
  build_entity_def setdefault_labels_extend_def label_dict_def dict_index_def
  dict_get_default_def dict_get_def process_release_def build_story_def build_epic_def
  process_workflow_state_def process_tasks_def process_requester_def process_owners_def
  process_reviewers_def process_review_comment_def review_triples_def review_row_def
  process_priority_def process_iteration_def store_comments_def project_keys_def
  keyed_get_def keyed_index_def keyed_contains_def
  PIVOTAL_TO_SHORTCUT_LABEL_def PIVOTAL_TO_SHORTCUT_RUN_LABEL_def
  PIVOTAL_RELEASE_TYPE_LABEL_def PIVOTAL_HAD_REVIEW_LABEL_def Let_def

section \<open>Releases become chores\<close>

text \<open>
  Claim C8. Whenever the builder returns a record for a row whose \<^verbatim>\<open>story_type\<close> is
  \<^verbatim>\<open>"release"\<close>, the record is of type story, its payload has \<^verbatim>\<open>story_type\<close> \<^verbatim>\<open>"chore"\<close>,
  and its labels hold the \<^verbatim>\<open>pivotal-release\<close> label and the two marker labels.
\<close>

theorem build_entity_release:
  assumes "map_of d ''story_type'' = Some st" and "py_eq_str st ''release''"
    and "build_entity now ctx d = Inr r"
  shows "type r = ''story'' \<and>
     map_of (entity r) ''story_type'' = Some (VStr OtherObj ''chore'') \<and>
     (\<exists>ls. map_of (entity r) ''labels'' = Some (VList ls) \<and>
        label_dict OtherObj PIVOTAL_RELEASE_TYPE_LABEL \<in> set ls \<and>
        label_dict LABEL_OBJ PIVOTAL_TO_SHORTCUT_LABEL \<in> set ls \<and>
        label_dict RUN_LABEL_OBJ (PIVOTAL_TO_SHORTCUT_RUN_LABEL now) \<in> set ls)"
proof -
  from assms(3) obtain d1 st' cs comments d2 d3 it where
    1: "setdefault_labels_extend d
       [label_dict LABEL_OBJ PIVOTAL_TO_SHORTCUT_LABEL,
        label_dict RUN_LABEL_OBJ (PIVOTAL_TO_SHORTCUT_RUN_LABEL now)] = Inr d1" and
    2: "dict_index d1 ''story_type'' = Inr st'" and
    5: "process_release d1 = Inr d2" and
    6: "(if \<not> py_eq_str st' ''epic''
      then build_story ctx comments (dict_get_default d2 ''pt_iteration_id'' VNone) d2
      else Inr (build_epic ctx d2, VNone)) = Inr (d3, it)" and
    7: "type r = (if py_eq_str st' ''epic'' then ''epic'' else ''story'')" and
    8: "entity r = project_keys (select_keys (type r)) d3"
    by (rule build_entity_Inr)
  have st1: "map_of d1 ''story_type'' = Some st"
    using setdefault_labels_extend_other [OF 1, of "''story_type''"] assms(1) by simp
  with 2 have st': "st' = st" by (simp add: dict_index_def)
  from assms(2) have ne: "\<not> py_eq_str st ''epic''" by (cases st) auto
  from setdefault_labels_extend_labels [OF 1] obtain ls0 where
    l1: "map_of d1 ''labels'' = Some (VList (ls0 @ [label_dict LABEL_OBJ PIVOTAL_TO_SHORTCUT_LABEL,
        label_dict RUN_LABEL_OBJ (PIVOTAL_TO_SHORTCUT_RUN_LABEL now)]))" by blast
  from 5 st1 assms(2) have rel: "setdefault_labels_extend
      (AList.update ''story_type'' (VStr OtherObj ''chore'') d1)
      [label_dict OtherObj PIVOTAL_RELEASE_TYPE_LABEL] = Inr d2"
    by (simp add: process_release_def dict_index_def)
  have st2: "map_of d2 ''story_type'' = Some (VStr OtherObj ''chore'')"
    using setdefault_labels_extend_other [OF rel, of "''story_type''"] by simp
  from setdefault_labels_extend_labels [OF rel] l1 have
    l2: "map_of d2 ''labels'' = Some (VList ((ls0 @ [label_dict LABEL_OBJ PIVOTAL_TO_SHORTCUT_LABEL,
        label_dict RUN_LABEL_OBJ (PIVOTAL_TO_SHORTCUT_RUN_LABEL now)]) @
        [label_dict OtherObj PIVOTAL_RELEASE_TYPE_LABEL]))" by auto
  from 6 ne st' have bs: "build_story ctx comments (dict_get_default d2 ''pt_iteration_id'' VNone) d2
     = Inr (d3, it)" by simp
  have st3: "map_of d3 ''story_type'' = Some (VStr OtherObj ''chore'')"
    using build_story_other [OF bs, of "''story_type''"] st2 by simp
  from build_story_labels [OF bs l2] obtain ls' where
    l3: "map_of d3 ''labels'' = Some (VList (((ls0 @ [label_dict LABEL_OBJ PIVOTAL_TO_SHORTCUT_LABEL,
        label_dict RUN_LABEL_OBJ (PIVOTAL_TO_SHORTCUT_RUN_LABEL now)]) @
        [label_dict OtherObj PIVOTAL_RELEASE_TYPE_LABEL]) @ ls'))" by blast
  from 7 ne st' have t: "type r = ''story''" by simp
  show ?thesis
    using t st3 l3 by (simp add: 8 map_of_project_keys)
qed

theorem build_entity_release_witness:
  "\<exists>r. build_entity ''2024-01-01 10:00''
      \<lparr>group_id = VNone, priority_config = Map.empty,
       priority_custom_field_id = VNone, user_config = Map.empty,
       workflow_config = Map.empty\<rparr>
      [(''story_type'', VStr OtherObj ''release''), (''name'', VStr OtherObj ''R''),
       (''labels'', VList [])] = Inr r \<and>
     type r = ''story'' \<and>
     map_of (entity r) ''story_type'' = Some (VStr OtherObj ''chore'') \<and>
     map_of (entity r) ''labels'' =
       Some (VList [label_dict LABEL_OBJ ''pivotal->shortcut'',
                    label_dict RUN_LABEL_OBJ ''pivotal->shortcut 2024-01-01 10:00'',
                    label_dict OtherObj ''pivotal-release''])"
proof -
  let ?ctx = "\<lparr>group_id = VNone, priority_config = Map.empty,
       priority_custom_field_id = VNone, user_config = Map.empty,
       workflow_config = Map.empty\<rparr>"
  let ?d = "[(''story_type'', VStr OtherObj ''release''), (''name'', VStr OtherObj ''R''),
       (''labels'', VList [])]"
  obtain r where r: "build_entity ''2024-01-01 10:00'' ?ctx ?d = Inr r"
    and l: "map_of (entity r) ''labels'' =
       Some (VList [label_dict LABEL_OBJ ''pivotal->shortcut'',
                    label_dict RUN_LABEL_OBJ ''pivotal->shortcut 2024-01-01 10:00'',
                    label_dict OtherObj ''pivotal-release''])"
    by (simp add: build_entity_defs)
  have 1: "map_of ?d ''story_type'' = Some (VStr OtherObj ''release'')" by simp
  have 2: "py_eq_str (VStr OtherObj ''release'') ''release''" by simp
  from build_entity_release [OF 1 2 r] r l show ?thesis by blast
qed

section \<open>Workflow states\<close>

text \<open>
  Claim C9, amended. For a story row whose \<^verbatim>\<open>pt_state\<close> is non-empty (truthy): if the state
  is absent from the workflow mapping the builder raises; if it is present and the builder
  returns a record, the record is a story whose \<^verbatim>\<open>workflow_state_id\<close> is the mapped value.
\<close>

theorem build_entity_workflow_state:
  assumes "\<not> py_eq_str (dict_get d ''story_type'') ''epic''"
    and "truthy (dict_get d ''pt_state'')"
    and "hash_key (dict_get d ''pt_state'') = Inr k"
  shows "(workflow_config ctx k = None \<longrightarrow> (\<exists>e. build_entity now ctx d = Inl e)) \<and>
     (\<forall>v r. workflow_config ctx k = Some v \<longrightarrow> build_entity now ctx d = Inr r \<longrightarrow>
        type r = ''story'' \<and> map_of (entity r) ''workflow_state_id'' = Some v)"
proof -
  have main: "workflow_config ctx k \<noteq> None \<and> type r = ''story'' \<and>
      map_of (entity r) ''workflow_state_id'' = workflow_config ctx k"
    if built: "build_entity now ctx d = Inr r" for r
  proof -
    from built obtain d1 st cs comments d2 d3 it where
      1: "setdefault_labels_extend d
         [label_dict LABEL_OBJ PIVOTAL_TO_SHORTCUT_LABEL,
          label_dict RUN_LABEL_OBJ (PIVOTAL_TO_SHORTCUT_RUN_LABEL now)] = Inr d1" and
      2: "dict_index d1 ''story_type'' = Inr st" and
      5: "process_release d1 = Inr d2" and
      6: "(if \<not> py_eq_str st ''epic''
        then build_story ctx comments (dict_get_default d2 ''pt_iteration_id'' VNone) d2
        else Inr (build_epic ctx d2, VNone)) = Inr (d3, it)" and
      7: "type r = (if py_eq_str st ''epic'' then ''epic'' else ''story'')" and
      8: "entity r = project_keys (select_keys (type r)) d3"
      by (rule build_entity_Inr)
    have "map_of d1 ''story_type'' = map_of d ''story_type''"
      using setdefault_labels_extend_other [OF 1, of "''story_type''"] by simp
    with 2 have "dict_get d ''story_type'' = st"
      by (auto simp: dict_index_def dict_get_def split: option.splits)
    with assms(1) have ne: "\<not> py_eq_str st ''epic''" by simp
    with 6 have bs: "build_story ctx comments (dict_get_default d2 ''pt_iteration_id'' VNone) d2
       = Inr (d3, it)" by simp
    have "map_of d2 ''pt_state'' = map_of d ''pt_state''"
      using setdefault_labels_extend_other [OF 1, of "''pt_state''"]
        process_release_other [OF 5, of "''pt_state''"] by simp
    then have pt: "dict_get (AList.update ''group_id'' (group_id ctx) d2) ''pt_state''
        = dict_get d ''pt_state''"
      by (simp add: dict_get_def)
    from bs obtain d1' d2' d3' d4' d5' comments1 d6' where
      s1: "process_workflow_state ctx (AList.update ''group_id'' (group_id ctx) d2) = Inr d1'" and
      s2: "process_tasks d1' = Inr d2'" and
      s3: "process_requester ctx d2' = Inr d3'" and
      s4: "process_owners ctx d3' = Inr d4'" and
      s5: "process_reviewers ctx d4' = Inr d5'" and
      s7: "process_priority ctx d5' = Inr d6'" and
      s8: "d3 = store_comments comments1 d6'"
      by (auto simp: build_story_def and_then_eq_Inr)
    from s1 pt assms(2,3) have wf: "workflow_config ctx k \<noteq> None \<and>
        map_of d1' ''workflow_state_id'' = workflow_config ctx k"
      by (auto simp: process_workflow_state_def Let_def keyed_index_def and_then_eq_Inr
               split: option.splits)
    have "map_of d3 ''workflow_state_id'' = map_of d1' ''workflow_state_id''"
      unfolding s8
      using process_tasks_other [OF s2, of "''workflow_state_id''"]
        process_requester_other [OF s3, of "''workflow_state_id''"]
        process_owners_other [OF s4, of "''workflow_state_id''"]
        process_reviewers_other [OF s5, of "''workflow_state_id''"]
        process_priority_other [OF s7, of "''workflow_state_id''"]
        store_comments_other [of "''workflow_state_id''" comments1 d6']
      by simp
    with wf 7 ne show ?thesis
      by (simp add: 8 map_of_project_keys)
  qed
  show ?thesis
  proof (intro conjI impI allI)
    assume "workflow_config ctx k = None"
    with main show "\<exists>e. build_entity now ctx d = Inl e"
      unfolding sum_cases_Inl by blast
  next
    fix v r assume "workflow_config ctx k = Some v" "build_entity now ctx d = Inr r"
    with main [of r] show "type r = ''story''" by simp
  next
    fix v r assume "workflow_config ctx k = Some v" "build_entity now ctx d = Inr r"
    with main [of r] show "map_of (entity r) ''workflow_state_id'' = Some v" by simp
  qed
qed

theorem build_entity_workflow_state_witness:
  "(\<exists>e. build_entity ''2024-01-01 10:00''
      \<lparr>group_id = VNone, priority_config = Map.empty,
       priority_custom_field_id = VNone, user_config = Map.empty,
       workflow_config = [KStr ''started'' \<mapsto> VInt 500]\<rparr>
      [(''story_type'', VStr OtherObj ''feature''), (''name'', VStr OtherObj ''F''),
       (''pt_state'', VStr OtherObj ''rejected'')] = Inl e) \<and>
   (\<exists>r. build_entity ''2024-01-01 10:00''
      \<lparr>group_id = VNone, priority_config = Map.empty,
       priority_custom_field_id = VNone, user_config = Map.empty,
       workflow_config = [KStr ''started'' \<mapsto> VInt 500]\<rparr>
      [(''story_type'', VStr OtherObj ''feature''), (''name'', VStr OtherObj ''F''),
       (''pt_state'', VStr OtherObj ''started'')] = Inr r \<and>
      type r = ''story'' \<and> map_of (entity r) ''workflow_state_id'' = Some (VInt 500))"
proof -
  let ?ctx = "\<lparr>group_id = VNone, priority_config = Map.empty,
       priority_custom_field_id = VNone, user_config = Map.empty,
       workflow_config = [KStr ''started'' \<mapsto> VInt 500]\<rparr>"
  let ?d1 = "[(''story_type'', VStr OtherObj ''feature''), (''name'', VStr OtherObj ''F''),
       (''pt_state'', VStr OtherObj ''rejected'')]"
  let ?d2 = "[(''story_type'', VStr OtherObj ''feature''), (''name'', VStr OtherObj ''F''),
       (''pt_state'', VStr OtherObj ''started'')]"
  have a1: "\<not> py_eq_str (dict_get ?d1 ''story_type'') ''epic''" by (simp add: dict_get_def)
  have a2: "truthy (dict_get ?d1 ''pt_state'')" by (simp add: dict_get_def)
  have a3: "hash_key (dict_get ?d1 ''pt_state'') = Inr (KStr ''rejected'')" by (simp add: dict_get_def)
  have b1: "\<not> py_eq_str (dict_get ?d2 ''story_type'') ''epic''" by (simp add: dict_get_def)
  have b2: "truthy (dict_get ?d2 ''pt_state'')" by (simp add: dict_get_def)
  have b3: "hash_key (dict_get ?d2 ''pt_state'') = Inr (KStr ''started'')" by (simp add: dict_get_def)
  obtain r where r: "build_entity ''2024-01-01 10:00'' ?ctx ?d2 = Inr r"
    by (simp add: build_entity_defs)
  show ?thesis
    using build_entity_workflow_state [OF a1 a2 a3, of ?ctx "''2024-01-01 10:00''"]
      build_entity_workflow_state [OF b1 b2 b3, of ?ctx "''2024-01-01 10:00''"] r
    by auto
qed

text \<open>
  The claim as it was stated does not ask the state to be non-empty in its second half. A
  story row with an empty \<^verbatim>\<open>pt_state\<close> is skipped by the guard \<^verbatim>\<open>if pt_state:\<close>, also when
  the mapping has an entry for the empty state: the record is built without a
  \<^verbatim>\<open>workflow_state_id\<close>.
\<close>

theorem build_entity_workflow_state_counterexample:
  "\<exists>r. build_entity ''2024-01-01 10:00''
      \<lparr>group_id = VNone, priority_config = Map.empty,
       priority_custom_field_id = VNone, user_config = Map.empty,
       workflow_config = [KStr '''' \<mapsto> VInt 500]\<rparr>
      [(''story_type'', VStr OtherObj ''feature''), (''name'', VStr OtherObj ''F''),
       (''pt_state'', VStr OtherObj '''')] = Inr r \<and>
     type r = ''story'' \<and>
     workflow_config \<lparr>group_id = VNone, priority_config = Map.empty,
       priority_custom_field_id = VNone, user_config = Map.empty,
       workflow_config = [KStr '''' \<mapsto> VInt 500]\<rparr> (KStr '''') = Some (VInt 500) \<and>
     map_of (entity r) ''workflow_state_id'' = None"
  by (simp add: build_entity_defs)

section \<open>The review comment\<close>

lemma escape_cell_Inr: "escape_cell v = Inr s \<Longrightarrow> is_str v \<and> s = escape_md_table_syntax (str_text v)"
  by (cases v) auto

lemma review_row_Inr:
  "review_row t = Inr row \<Longrightarrow>
     row = table_row t \<and> is_str (fst t) \<and> is_str (fst (snd t)) \<and> is_str (snd (snd t))"
  by (auto simp: review_row_def table_row_def and_then_eq_Inr split: prod.splits
           dest!: escape_cell_Inr)

lemma map_err_review_row:
  "map_err review_row ts = Inr rows \<Longrightarrow>
     rows = map table_row ts \<and>
     list_all (\<lambda>t. is_str (fst t) \<and> is_str (fst (snd t)) \<and> is_str (snd (snd t))) ts"
  by (induction ts arbitrary: rows) (auto simp: and_then_eq_Inr dest!: review_row_Inr)

lemma process_requester_id:
  assumes "process_requester ctx d = Inr d'" and "map_of d ''requested_by_id'' = None"
  shows "dict_get_default d' ''requested_by_id'' VNone = resolved_requester ctx d"
proof (cases "truthy (dict_get d ''requester'')")
  case True
  with assms(1) obtain x where x: "keyed_get (user_config ctx) (dict_get d ''requester'') = Inr x"
    and d': "d' = (if truthy x then AList.update ''requested_by_id'' x d else d)"
    by (auto simp: process_requester_def Let_def and_then_eq_Inr)
  show ?thesis
    using True x assms(2) unfolding d'
    by (simp add: resolved_requester_def dict_get_default_def)
next
  case False
  with assms show ?thesis
    by (simp add: process_requester_def resolved_requester_def dict_get_default_def)
qed

lemma escape_md_table_syntax_Cons:
  "escape_md_table_syntax (c # cs) =
      (if c = CHR ''|'' then [bslash, CHR ''|''] else [c]) @ escape_md_table_syntax cs"
  by (simp add: escape_md_table_syntax_def)

lemma escape_md_table_syntax_bar:
  assumes "i < length (escape_md_table_syntax s)" and "escape_md_table_syntax s ! i = CHR ''|''"
  shows "0 < i \<and> escape_md_table_syntax s ! (i - 1) = bslash"
  using assms
proof (induction s arbitrary: i)
  case Nil
  then show ?case by (simp add: escape_md_table_syntax_def)
next
  case (Cons c cs)
  note unf = escape_md_table_syntax_Cons
  have bs: "bslash \<noteq> CHR ''|''" by (simp add: bslash_def)
  show ?case
  proof (cases "c = CHR ''|''")
    case True
    show ?thesis
    proof (cases "i < 2")
      case True
      with Cons.prems \<open>c = CHR ''|''\<close> bs show ?thesis
        by (cases i) (auto simp: unf)
    next
      case False
      then obtain j where j: "i = j + 2" by (metis add.commute le_Suc_ex not_less)
      with Cons.prems True have "j < length (escape_md_table_syntax cs)"
        "escape_md_table_syntax cs ! j = CHR ''|''" by (auto simp: unf)
      from Cons.IH [OF this] have "0 < j" "escape_md_table_syntax cs ! (j - 1) = bslash" by auto
      then show ?thesis using True j by (cases j) (auto simp: unf)
    qed
  next
    case False
    show ?thesis
    proof (cases i)
      case 0
      with Cons.prems False show ?thesis by (simp add: unf)
    next
      case (Suc j)
      with Cons.prems False have "j < length (escape_md_table_syntax cs)"
        "escape_md_table_syntax cs ! j = CHR ''|''" by (auto simp: unf)
      from Cons.IH [OF this] have "0 < j" "escape_md_table_syntax cs ! (j - 1) = bslash" by auto
      then show ?thesis using False Suc by (cases j) (auto simp: unf)
    qed
  qed
qed

text \<open>
  Claim C7. For a story row with a non-empty list of reviewers (and no \<^verbatim>\<open>requested_by_id\<close>
  of its own, which is an attribute of the target, not of the export), whenever the builder
  returns a record its comments are the row's comments, processed, followed by exactly one
  more comment. Its author is the resolved requester id or \<^verbatim>\<open>None\<close>; its text is the fixed
  prefix followed by one table row for each triple of \<^verbatim>\<open>zip(reviewers, review_types,
  review_states)\<close>, whose cells are strings and are escaped by \<^verbatim>\<open>escape_md_table_syntax\<close>
  (in whose result every bar follows a backslash: \<open>escape_md_table_syntax_bar\<close>).
\<close>

theorem build_entity_review_comment:
  assumes built: "build_entity now ctx d = Inr r"
    and story: "\<not> py_eq_str (dict_get d ''story_type'') ''epic''"
    and reviewers: "map_of d ''reviewers'' = Some (VList reviewers)" "reviewers \<noteq> []"
    and fresh: "map_of d ''requested_by_id'' = None"
  shows "\<exists>cs comments review_types review_states.
     py_iter (dict_get_default d ''comments'' (VList [])) = Inr cs \<and>
     map_err (process_comment ctx) cs = Inr comments \<and>
     py_iter (dict_get_default d ''review_types'' (VList [])) = Inr review_types \<and>
     py_iter (dict_get_default d ''review_states'' (VList [])) = Inr review_states \<and>
     list_all (\<lambda>t. is_str (fst t) \<and> is_str (fst (snd t)) \<and> is_str (snd (snd t)))
       (zip reviewers (zip review_types review_states)) \<and>
     map_of (entity r) ''comments'' =
       Some (VList (comments @
         [VDict [(''author_id'', resolved_requester ctx d),
                 (''text'', VStr OtherObj (review_as_comment_text_prefix @
                    concat (map table_row (zip reviewers (zip review_types review_states)))))]]))"
proof -
  from built obtain d1 st cs comments d2 d3 it where
    1: "setdefault_labels_extend d
       [label_dict LABEL_OBJ PIVOTAL_TO_SHORTCUT_LABEL,
        label_dict RUN_LABEL_OBJ (PIVOTAL_TO_SHORTCUT_RUN_LABEL now)] = Inr d1" and
    2: "dict_index d1 ''story_type'' = Inr st" and
    3: "py_iter (dict_get_default d1 ''comments'' (VList [])) = Inr cs" and
    4: "map_err (process_comment ctx) cs = Inr comments" and
    5: "process_release d1 = Inr d2" and
    6: "(if \<not> py_eq_str st ''epic''
      then build_story ctx comments (dict_get_default d2 ''pt_iteration_id'' VNone) d2
      else Inr (build_epic ctx d2, VNone)) = Inr (d3, it)" and
    7: "type r = (if py_eq_str st ''epic'' then ''epic'' else ''story'')" and
    8: "entity r = project_keys (select_keys (type r)) d3"
    by (rule build_entity_Inr)
  have d1_eq: "map_of d1 k = map_of d k" if "k \<noteq> ''labels''" for k
    using setdefault_labels_extend_other [OF 1, of k] that by simp
  have d2_eq: "map_of d2 k = map_of d k" if "k \<noteq> ''labels''" "k \<noteq> ''story_type''" for k
    using process_release_other [OF 5, of k] d1_eq [of k] that by simp
  from 2 d1_eq [of "''story_type''"] have "dict_get d ''story_type'' = st"
    by (auto simp: dict_index_def dict_get_def split: option.splits)
  with story have ne: "\<not> py_eq_str st ''epic''" by simp
  with 6 have bs: "build_story ctx comments (dict_get_default d2 ''pt_iteration_id'' VNone) d2
     = Inr (d3, it)" by simp
  from bs obtain d1' d2' d3' d4' d5' comments1 d6' where
    s1: "process_workflow_state ctx (AList.update ''group_id'' (group_id ctx) d2) = Inr d1'" and
    s2: "process_tasks d1' = Inr d2'" and
    s3: "process_requester ctx d2' = Inr d3'" and
    s4: "process_owners ctx d3' = Inr d4'" and
    s5: "process_reviewers ctx d4' = Inr d5'" and
    s6: "process_review_comment d5' comments = Inr comments1" and
    s7: "process_priority ctx d5' = Inr d6'" and
    s8: "d3 = store_comments comments1 d6'"
    by (auto simp: build_story_def and_then_eq_Inr)
  have d2'_eq: "map_of d2' k = map_of d k"
    if "k \<notin> {''labels'', ''story_type'', ''group_id'', ''workflow_state_id'', ''tasks''}" for k
    using process_workflow_state_other [OF s1, of k] process_tasks_other [OF s2, of k]
      d2_eq [of k] that by simp
  have d5'_eq: "map_of d5' k = map_of d k"
    if "k \<notin> {''labels'', ''story_type'', ''group_id'', ''workflow_state_id'', ''tasks'',
               ''requested_by_id'', ''owner_ids'', ''follower_ids''}" for k
    using process_requester_other [OF s3, of k] process_owners_other [OF s4, of k]
      process_reviewers_other [OF s5, of k] d2'_eq [of k] that by simp
  have req: "dict_get_default d5' ''requested_by_id'' VNone = resolved_requester ctx d"
  proof -
    have "map_of d2' ''requested_by_id'' = None"
      using d2'_eq [of "''requested_by_id''"] fresh by simp
    from process_requester_id [OF s3 this]
    have "dict_get_default d3' ''requested_by_id'' VNone = resolved_requester ctx d2'" .
    moreover have "resolved_requester ctx d2' = resolved_requester ctx d"
      using d2'_eq [of "''requester''"] by (simp add: resolved_requester_def dict_get_def)
    moreover have "map_of d5' ''requested_by_id'' = map_of d3' ''requested_by_id''"
      using process_owners_other [OF s4, of "''requested_by_id''"]
        process_reviewers_other [OF s5, of "''requested_by_id''"] by simp
    ultimately show ?thesis by (simp add: dict_get_default_def)
  qed
  have rv: "dict_get d5' ''reviewers'' = VList reviewers"
    "dict_get_default d5' ''reviewers'' (VList []) = VList reviewers"
    using d5'_eq [of "''reviewers''"] reviewers(1) by (simp_all add: dict_get_def dict_get_default_def)
  have rt: "dict_get_default d5' ''review_types'' (VList []) = dict_get_default d ''review_types'' (VList [])"
    using d5'_eq [of "''review_types''"] by (simp add: dict_get_default_def)
  have rs: "dict_get_default d5' ''review_states'' (VList []) = dict_get_default d ''review_states'' (VList [])"
    using d5'_eq [of "''review_states''"] by (simp add: dict_get_default_def)
  from s6 rv reviewers(2) obtain review_types review_states rows where
    t1: "py_iter (dict_get_default d ''review_types'' (VList [])) = Inr review_types" and
    t2: "py_iter (dict_get_default d ''review_states'' (VList [])) = Inr review_states" and
    t3: "map_err review_row (zip reviewers (zip review_types review_states)) = Inr rows" and
    c1: "comments1 = comments @
         [VDict [(''author_id'', resolved_requester ctx d),
                 (''text'', VStr OtherObj (review_as_comment_text_prefix @ concat rows))]]"
    by (auto simp: process_review_comment_def review_triples_def and_then_eq_Inr rt rs req)
  from map_err_review_row [OF t3] have rows: "rows = map table_row (zip reviewers (zip review_types review_states))"
    and strs: "list_all (\<lambda>t. is_str (fst t) \<and> is_str (fst (snd t)) \<and> is_str (snd (snd t)))
       (zip reviewers (zip review_types review_states))" by simp_all
  have cs_d: "py_iter (dict_get_default d ''comments'' (VList [])) = Inr cs"
    using 3 d1_eq [of "''comments''"] by (simp add: dict_get_default_def)
  have "map_of d3 ''comments'' = Some (VList comments1)"
    unfolding s8 by (simp add: store_comments_def c1)
  with 7 ne have "map_of (entity r) ''comments'' = Some (VList comments1)"
    by (simp add: 8 map_of_project_keys)
  with cs_d 4 t1 t2 strs show ?thesis
    unfolding c1 rows by blast
qed

theorem build_entity_review_comment_witness:
  "\<exists>r. build_entity ''2024-01-01 10:00''
      \<lparr>group_id = VNone, priority_config = Map.empty,
       priority_custom_field_id = VNone,
       user_config = [KStr ''alice'' \<mapsto> VStr OtherObj ''u-1''],
       workflow_config = Map.empty\<rparr>
      [(''story_type'', VStr OtherObj ''feature''), (''name'', VStr OtherObj ''F''),
       (''requester'', VStr OtherObj ''alice''),
       (''reviewers'', VList [VStr OtherObj ''bob|x'', VStr OtherObj ''carol'']),
       (''review_types'', VList [VStr OtherObj ''code'', VStr OtherObj ''qa'']),
       (''review_states'', VList [VStr OtherObj ''pass'', VStr OtherObj ''unstarted''])] = Inr r \<and>
     map_of (entity r) ''comments'' =
       Some (VList [VDict [(''author_id'', VStr OtherObj ''u-1''),
         (''text'', VStr OtherObj (review_as_comment_text_prefix
            @ [newline] @ ''|bob'' @ [bslash] @ ''|x|code|pass|''
            @ [newline] @ ''|carol|qa|unstarted|''))]])"
proof -
  let ?ctx = "\<lparr>group_id = VNone, priority_config = Map.empty,
       priority_custom_field_id = VNone,
       user_config = [KStr ''alice'' \<mapsto> VStr OtherObj ''u-1''],
       workflow_config = Map.empty\<rparr>"
  let ?rs = "[VStr OtherObj ''bob|x'', VStr OtherObj ''carol'']"
  let ?d = "[(''story_type'', VStr OtherObj ''feature''), (''name'', VStr OtherObj ''F''),
       (''requester'', VStr OtherObj ''alice''),
       (''reviewers'', VList ?rs),
       (''review_types'', VList [VStr OtherObj ''code'', VStr OtherObj ''qa'']),
       (''review_states'', VList [VStr OtherObj ''pass'', VStr OtherObj ''unstarted''])]"
  obtain r where r: "build_entity ''2024-01-01 10:00'' ?ctx ?d = Inr r"
    by (simp add: build_entity_defs escape_md_table_syntax_def)
  have 1: "\<not> py_eq_str (dict_get ?d ''story_type'') ''epic''" by (simp add: dict_get_def)
  have 2: "map_of ?d ''reviewers'' = Some (VList ?rs)" by simp
  have 3: "?rs \<noteq> []" by simp
  have 4: "map_of ?d ''requested_by_id'' = None" by simp
  from build_entity_review_comment [OF r 1 2 3 4] r show ?thesis
    by (auto simp: dict_get_default_def dict_get_def resolved_requester_def keyed_get_def
          table_row_def escape_md_table_syntax_def)
qed

section \<open>Worlds\<close>

declare batches_of.simps [simp del] str_nat.simps [simp del]

lemmas monad_defs = bind_w_def pure_w_def lift_w_def effect_w_def

lemmas live_defs = sc_creator_def process_batch_def process_files_for_stories_def
  process_story_files_def clean_story_def write_failed_stories_def write_failed_files_csv_def
  write_to_imported_entities_csv_def failed_row_def create_stories_def create_stories_fallback_def
  create_item_def dict_index_def dict_get_default_def dict_get_def BATCH_SIZE_def

lemmas fixture_defs = strict_tracker_def strict_post_def has_name_def created_story_def
  story_record_def fresh_world_def

section \<open>A failed bulk call\<close>

text \<open>
  Claim C1 says that after a failed bulk call the live backend creates the stories one at a
  time. \<^verbatim>\<open>sc_creator\<close> does not: with a batch of two stories of which the second has no name
  (the tracker refuses it, and with it the bulk call), it returns no created story and
  writes both stories to the failed-stories file.
\<close>

theorem sc_creator_no_fallback:
  "sc_creator strict_tracker
     [story_record [(''name'', VStr OtherObj ''A''), (''external_id'', VStr OtherObj ''1'')],
      story_record [(''external_id'', VStr OtherObj ''2'')]] fresh_world
   = (Inr [],
      fresh_world\<lparr>failed_stories_csv := Some
        [FailedHeader,
         FailedRow (VStr OtherObj ''A'') (VStr OtherObj ''1'') ''Unknown error''
           [(''name'', VStr OtherObj ''A''), (''external_id'', VStr OtherObj ''1'')],
         FailedRow (VStr OtherObj ''Unknown'') (VStr OtherObj ''2'') ''Unknown error''
           [(''external_id'', VStr OtherObj ''2'')]]\<rparr>)"
  by (simp add: live_defs monad_defs fixture_defs)

text \<open>
  \<^verbatim>\<open>create_stories\<close>, which \<^verbatim>\<open>sc_creator\<close> does not call, does what the claim says on the same
  batch: one story created, one failure recorded.
\<close>

lemma create_stories_falls_back:
  "create_stories strict_tracker
     [story_record [(''name'', VStr OtherObj ''A''), (''external_id'', VStr OtherObj ''1'')],
      story_record [(''external_id'', VStr OtherObj ''2'')]] fresh_world
   = (Inr [(story_record [(''name'', VStr OtherObj ''A''), (''external_id'', VStr OtherObj ''1'')])
             \<lparr>imported_entity := Some (created_story 0)\<rparr>],
      fresh_world\<lparr>api := 1, failed_stories_csv := Some
        [FailedHeader,
         FailedRow (VStr OtherObj ''Unknown'') (VStr OtherObj ''2'') ''400 Bad Request''
           [(''external_id'', VStr OtherObj ''2'')]]\<rparr>)"
  by (simp add: live_defs monad_defs fixture_defs)

section \<open>Marker labels in the epic-label map\<close>

lemma epic_with_marker_name:
  "build_entity ''T'' empty_ctx
     [(''story_type'', VStr OtherObj ''epic''), (''name'', VStr OtherObj ''E''),
      (''labels'', VList [label_dict OtherObj ''pivotal->shortcut''])]
   = Inr \<lparr>type = ''epic'',
        entity = [(''group_ids'', VList []),
                  (''labels'', VList [label_dict OtherObj ''pivotal->shortcut'',
                                     label_dict LABEL_OBJ ''pivotal->shortcut'',
                                     label_dict RUN_LABEL_OBJ ''pivotal->shortcut T'']),
                  (''name'', VStr OtherObj ''E'')],
        iteration = Some VNone, pt_iteration_id = Some VNone,
        parsed_row = Some [(''story_type'', VStr OtherObj ''epic''), (''name'', VStr OtherObj ''E''),
                  (''labels'', VList [label_dict OtherObj ''pivotal->shortcut'',
                                     label_dict LABEL_OBJ ''pivotal->shortcut'',
                                     label_dict RUN_LABEL_OBJ ''pivotal->shortcut T'']),
                  (''group_ids'', VList [])],
        imported_entity = None, error_message = None\<rparr>"
  by (simp add: build_entity_defs empty_ctx_def)

text \<open>
  Claim C3 says that the map never has a marker label name as a key. The test in
  \<^verbatim>\<open>collect_epic_label_mapping\<close> is \<^verbatim>\<open>is not\<close>: it leaves out the label objects the builder
  appended, not a label of the same name that the export itself carries. An epic row with a
  label named \<^verbatim>\<open>pivotal->shortcut\<close>, built and created (dry run, id 0), puts that name into
  the map.
\<close>

theorem collect_epic_label_mapping_marker_key:
  "\<exists>epic created m.
     build_entity ''T'' empty_ctx
       [(''story_type'', VStr OtherObj ''epic''), (''name'', VStr OtherObj ''E''),
        (''labels'', VList [label_dict OtherObj ''pivotal->shortcut''])] = Inr epic \<and>
     mock_emitter [epic] fresh_world = (Inr created, fresh_world\<lparr>mock_global_id := 1\<rparr>) \<and>
     collect_epic_label_mapping created = Inr m \<and>
     m (KStr PIVOTAL_TO_SHORTCUT_LABEL) = Some (VInt 0)"
  unfolding epic_with_marker_name
  by (simp add: monad_defs fresh_world_def dict_index_def collect_epic_label_mapping_def
        label_dict_def item_index_def mock_created_entity_def PIVOTAL_TO_SHORTCUT_LABEL_def)

text \<open>
  What the test does ensure: every key of the map is the name of a label of some epic
  whose name is neither of the two constant objects.
\<close>

lemma epic_label_loop_keys:
  assumes "epic_label_loop m0 epic ls = Inr m" and "m k \<noteq> m0 k"
  shows "\<exists>label nm. label \<in> set ls \<and> subscript label ''name'' = Inr nm \<and> hash_key nm = Inr k \<and>
           \<not> is_object nm LABEL_OBJ \<and> \<not> is_object nm RUN_LABEL_OBJ"
  using assms
proof (induction ls arbitrary: m0)
  case Nil
  then show ?case by simp
next
  case (Cons l ls)
  from Cons.prems(1) obtain nm where nm: "subscript l ''name'' = Inr nm"
    by (auto simp: and_then_eq_Inr)
  show ?case
  proof (cases "\<not> is_object nm LABEL_OBJ \<and> \<not> is_object nm RUN_LABEL_OBJ")
    case True
    with Cons.prems(1) nm obtain imported epic_id k' where
      k': "hash_key nm = Inr k'" and
      rest: "epic_label_loop (m0(k' \<mapsto> epic_id)) epic ls = Inr m"
      by (auto simp: and_then_eq_Inr)
    show ?thesis
    proof (cases "m k = (m0(k' \<mapsto> epic_id)) k")
      case True
      with Cons.prems(2) have "k = k'" by (auto split: if_splits)
      with nm k' \<open>\<not> is_object nm LABEL_OBJ \<and> \<not> is_object nm RUN_LABEL_OBJ\<close>
      show ?thesis by auto
    next
      case False
      from Cons.IH [OF rest False] show ?thesis by auto
    qed
  next
    case False
    with Cons.prems(1) nm have "epic_label_loop m0 epic ls = Inr m"
      by (auto simp: and_then_eq_Inr split: if_splits)
    from Cons.IH [OF this Cons.prems(2)] show ?thesis by auto
  qed
qed

lemma epic_loop_keys:
  assumes "epic_loop m0 es = Inr m" and "m k \<noteq> m0 k"
  shows "\<exists>epic ls labels label nm. epic \<in> set es \<and> map_of (entity epic) ''labels'' = Some ls \<and>
           py_iter ls = Inr labels \<and> label \<in> set labels \<and>
           subscript label ''name'' = Inr nm \<and> hash_key nm = Inr k \<and>
           \<not> is_object nm LABEL_OBJ \<and> \<not> is_object nm RUN_LABEL_OBJ"
  using assms
proof (induction es arbitrary: m0)
  case Nil
  then show ?case by simp
next
  case (Cons e es)
  from Cons.prems(1) obtain ls labels m1 where
    ls: "map_of (entity e) ''labels'' = Some ls" and it: "py_iter ls = Inr labels" and
    l: "epic_label_loop m0 e labels = Inr m1" and r: "epic_loop m1 es = Inr m"
    by (auto simp: and_then_eq_Inr dict_index_def split: option.splits)
  show ?case
  proof (cases "m k = m1 k")
    case True
    with Cons.prems(2) have "m1 k \<noteq> m0 k" by simp
    from epic_label_loop_keys [OF l this] ls it show ?thesis by fastforce
  next
    case False
    from Cons.IH [OF r False] show ?thesis by fastforce
  qed
qed

lemma collect_epic_label_mapping_keys:
  assumes "collect_epic_label_mapping es = Inr m" and "m k = Some v"
  shows "\<exists>epic ls labels label nm. epic \<in> set es \<and> map_of (entity epic) ''labels'' = Some ls \<and>
           py_iter ls = Inr labels \<and> label \<in> set labels \<and>
           subscript label ''name'' = Inr nm \<and> hash_key nm = Inr k \<and>
           \<not> is_object nm LABEL_OBJ \<and> \<not> is_object nm RUN_LABEL_OBJ"
  using epic_loop_keys [of Map.empty es m k] assms
  by (simp add: collect_epic_label_mapping_def)

section \<open>The attributes of a payload\<close>

lemma map_err_list_all2: "map_err f xs = Inr ys \<Longrightarrow> list_all2 (\<lambda>x y. f x = Inr y) xs ys"
  by (induction xs arbitrary: ys) (auto simp: and_then_eq_Inr)

lemma keys_update: "fst ` set (AList.update k v d) = insert k (fst ` set d)"
  by (simp add: AList.dom_update)

lemma list_all2_rightD: "list_all2 P xs ys \<Longrightarrow> y \<in> set ys \<Longrightarrow> \<exists>x\<in>set xs. P x y"
  by (induction rule: list_all2_induct) auto

lemma story_label_loop_keys:
  "story_label_loop m e ls = Inr e' \<Longrightarrow> fst ` set e' \<subseteq> insert ''epic_id'' (fst ` set e)"
proof (induction ls arbitrary: e)
  case Nil
  then show ?case by auto
next
  case (Cons l ls)
  from Cons.prems obtain nm epic_id where
    "story_label_loop m (if epic_id \<noteq> VNone then AList.update ''epic_id'' epic_id e else e) ls = Inr e'"
    by (auto simp: and_then_eq_Inr)
  from Cons.IH [OF this] have "fst ` set e' \<subseteq> insert ''epic_id''
      (fst ` set (if epic_id \<noteq> VNone then AList.update ''epic_id'' epic_id e else e))" .
  also have "\<dots> \<subseteq> insert ''epic_id'' (fst ` set e)"
    by (simp add: keys_update subset_insertI)
  finally show ?case .
qed

lemma assign_story_to_epic_keys:
  "assign_story_to_epic m s = Inr s' \<Longrightarrow>
     type s' = type s \<and> fst ` set (entity s') \<subseteq> insert ''epic_id'' (fst ` set (entity s))"
proof -
  assume "assign_story_to_epic m s = Inr s'"
  then obtain ls e where "story_label_loop m (entity s) ls = Inr e" and s': "s' = s\<lparr>entity := e\<rparr>"
    by (auto simp: assign_story_to_epic_def and_then_eq_Inr)
  from story_label_loop_keys [OF this(1)] show ?thesis by (simp add: s')
qed

lemma assign_story_to_iteration_keys:
  "assign_story_to_iteration pm s = Inr s' \<Longrightarrow>
     type s' = type s \<and> fst ` set (entity s') \<subseteq> insert ''iteration_id'' (fst ` set (entity s))"
proof -
  assume "assign_story_to_iteration pm s = Inr s'"
  then have "s' = s \<or> (\<exists>v. s' = s\<lparr>entity := AList.update ''iteration_id'' v (entity s)\<rparr>)"
    by (auto simp: assign_story_to_iteration_def and_then_eq_Inr split: if_splits option.splits)
  then show ?thesis
  proof
    assume "s' = s" then show ?thesis by auto
  next
    assume "\<exists>v. s' = s\<lparr>entity := AList.update ''iteration_id'' v (entity s)\<rparr>"
    then obtain v where "s' = s\<lparr>entity := AList.update ''iteration_id'' v (entity s)\<rparr>" ..
    then show ?thesis by (simp add: keys_update)
  qed
qed

lemma build_entity_keys:
  assumes "build_entity now ctx d = Inr r"
  shows "type r \<in> {''story'', ''epic''} \<and> fst ` set (entity r) \<subseteq> set (select_keys (type r))"
proof -
  from assms obtain d3 st where "type r = (if py_eq_str st ''epic'' then ''epic'' else ''story'')"
    "entity r = project_keys (select_keys (type r)) d3"
    by (rule build_entity_Inr)
  then show ?thesis
    using keys_project_keys [of "select_keys (type r)" d3] by auto
qed

section \<open>Computations on the world\<close>

lemma bind_w_Inr:
  "bind_w m f w = (Inr y, w') \<longleftrightarrow> (\<exists>x w1. m w = (Inr x, w1) \<and> f x w1 = (Inr y, w'))"
  by (auto simp: bind_w_def split: prod.splits sum.splits)

lemma lift_w_Inr: "lift_w m w = (Inr x, w') \<longleftrightarrow> m = Inr x \<and> w' = w"
  by (auto simp: lift_w_def)

lemma pure_w_Inr: "pure_w x w = (Inr y, w') \<longleftrightarrow> y = x \<and> w' = w"
  by (auto simp: pure_w_def)

lemma effect_w_Inr: "effect_w g w = (Inr u, w') \<longleftrightarrow> w' = g w"
  by (auto simp: effect_w_def)

lemmas prog_Inr = bind_w_Inr lift_w_Inr pure_w_Inr effect_w_Inr

section \<open>Splitting and batching\<close>

lemma split_on_not_Nil [simp]: "split_on sep s \<noteq> []"
  by (induction s) (auto split: list.splits)

lemma split_on_append: "split_on sep (a @ sep # b) = split_on sep a @ split_on sep b"
  by (induction a) (auto split: list.splits)

lemma split_on_single: "split_on sep s = [x] \<Longrightarrow> x = s"
  by (induction s arbitrary: x) (auto split: list.splits if_splits)

lemma join_split_on: "join_with [sep] (split_on sep s) = s"
proof (induction s)
  case Nil
  then show ?case by simp
next
  case (Cons c cs)
  show ?case
  proof (cases "c = sep")
    case True
    obtain p ps where "split_on sep cs = p # ps" by (cases "split_on sep cs") auto
    with Cons True show ?thesis by simp
  next
    case False
    obtain p ps where ps: "split_on sep cs = p # ps" by (cases "split_on sep cs") auto
    with Cons False show ?thesis by (cases ps) auto
  qed
qed

lemma split_on_three: "split_on sep k = [a, b, c] \<Longrightarrow> k = a @ sep # b @ sep # c"
  using join_split_on [of sep k] by simp

lemma split_on_key:
  assumes "split_on sep (a @ sep # b @ sep # c) = [x, y, z]"
  shows "x = a \<and> y = b \<and> z = c"
proof -
  have e: "split_on sep (a @ sep # b @ sep # c) = split_on sep a @ split_on sep b @ split_on sep c"
    by (simp add: split_on_append)
  obtain a1 as where a: "split_on sep a = a1 # as" by (cases "split_on sep a") auto
  obtain b1 bs where b: "split_on sep b = b1 # bs" by (cases "split_on sep b") auto
  obtain c1 cs where c: "split_on sep c = c1 # cs" by (cases "split_on sep c") auto
  from assms e a b c have "as = []" "bs = []" "cs = []" "a1 = x" "b1 = y" "c1 = z"
    by (auto simp: Cons_eq_append_conv append_eq_Cons_conv)
  with a b c show ?thesis by (auto dest: split_on_single)
qed

lemma concat_batches_of: "0 < n \<Longrightarrow> concat (batches_of n xs) = xs"
proof (induction n xs rule: batches_of.induct)
  case (1 n xs)
  show ?case
  proof (cases "xs = []")
    case True
    then show ?thesis by (subst batches_of.simps) simp
  next
    case False
    with 1 have "concat (batches_of n (drop n xs)) = drop n xs" by simp
    with False 1(2) show ?thesis by (subst batches_of.simps) simp
  qed
qed

lemma list_all2_concat:
  "list_all2 (list_all2 R) xss yss \<Longrightarrow> list_all2 R (concat xss) (concat yss)"
  by (induction rule: list_all2_induct) (auto intro: list_all2_appendI)

lemma filter_unique_index:
  assumes "j < length xs" and "P (xs ! j)" and "\<forall>i < length xs. P (xs ! i) \<longrightarrow> i = j"
  shows "filter P xs = [xs ! j]"
  using assms
proof (induction xs arbitrary: j)
  case Nil
  then show ?case by simp
next
  case (Cons x xs)
  show ?case
  proof (cases j)
    case 0
    have "filter P xs = []"
      unfolding filter_empty_conv
    proof
      fix y assume "y \<in> set xs"
      then obtain i where i: "i < length xs" "xs ! i = y" by (auto simp: in_set_conv_nth)
      show "\<not> P y"
      proof
        assume "P y"
        with i Cons.prems(3) [rule_format, of "Suc i"] 0 show False by simp
      qed
    qed
    with 0 Cons.prems(2) show ?thesis by simp
  next
    case (Suc j')
    have nx: "\<not> P x" using Cons.prems(3) [rule_format, of 0] Suc by auto
    have "filter P xs = [xs ! j']"
    proof (rule Cons.IH)
      show "j' < length xs" using Cons.prems(1) Suc by simp
      show "P (xs ! j')" using Cons.prems(2) Suc by simp
      show "\<forall>i<length xs. P (xs ! i) \<longrightarrow> i = j'"
      proof (intro allI impI)
        fix i assume "i < length xs" "P (xs ! i)"
        with Cons.prems(3) [rule_format, of "Suc i"] Suc show "i = j'" by simp
      qed
    qed
    with nx Suc show ?thesis by simp
  qed
qed

section \<open>The phases of commit\<close>

lemma commit_labels_Inr:
  assumes "commit_labels now em st w = (Inr st1, w1)"
  shows "\<exists>ls. fst st1 = (fst st)\<lparr>labels := ls\<rparr>"
  using assms
  by (cases st) (auto simp: commit_labels_def prog_Inr split: if_splits)

lemma commit_epics_Inr:
  assumes "commit_epics em st w = (Inr st1, w1)"
  shows "\<exists>es. fst st1 = (fst st)\<lparr>epics := es\<rparr>"
  using assms
  by (cases st) (auto simp: commit_epics_def prog_Inr)

lemma commit_iterations_Inr:
  assumes "commit_iterations em order st w = (Inr st1, w1)"
  shows "\<exists>reqs its wa. map_err iteration_entity order = Inr reqs \<and>
           em reqs w = (Inr its, wa) \<and> fst st1 = (fst st)\<lparr>iterations := its\<rparr>"
  using assms
  by (cases st) (auto simp: commit_iterations_def prog_Inr)

lemma list_all2_trans2:
  "list_all2 P xs ys \<Longrightarrow> list_all2 Q ys zs \<Longrightarrow> list_all2 (\<lambda>x z. \<exists>y. P x y \<and> Q y z) xs zs"
proof (induction arbitrary: zs rule: list_all2_induct)
  case Nil
  then show ?case by simp
next
  case (Cons x xs y ys)
  then show ?case by (cases zs) auto
qed

lemma commit_story_batch_Inr:
  assumes "commit_story_batch env em st batch w = (Inr (st1, sub), w1)"
  shows "fst st1 = fst st \<and> list_all2 (linked (fst st)) batch sub"
proof -
  obtain self wr cr where st: "st = (self, wr, cr)" by (cases st) auto
  from assms obtain b1 where
    1: "assign_stories_to_epics batch (epics self) = Inr b1" and
    2: "assign_stories_to_iterations b1 (iterations self) = Inr sub" and
    3: "fst st1 = self"
    unfolding st commit_story_batch_def
    by (auto simp: prog_Inr split: if_splits)
  from 1 obtain m where m: "collect_epic_label_mapping (epics self) = Inr m"
    and l1: "list_all2 (\<lambda>s s1. assign_story_to_epic m s = Inr s1) batch b1"
    by (auto simp: assign_stories_to_epics_def and_then_eq_Inr dest: map_err_list_all2)
  from 2 obtain pm where pm: "collect_pt_iteration_mapping (iterations self) = Inr pm"
    and l2: "list_all2 (\<lambda>s1 s2. assign_story_to_iteration pm s1 = Inr s2) b1 sub"
    by (auto simp: assign_stories_to_iterations_def and_then_eq_Inr dest: map_err_list_all2)
  from list_all2_trans2 [OF l1 l2] have "list_all2 (linked self) batch sub"
    by (rule list_all2_mono) (auto simp: linked_def m pm)
  with 3 show ?thesis by (simp add: st)
qed

lemma commit_story_batches_Inr:
  assumes "commit_story_batches env em st batches w = (Inr (st1, subs), w1)"
  shows "fst st1 = fst st \<and> list_all2 (list_all2 (linked (fst st))) batches subs"
  using assms
proof (induction batches arbitrary: st w st1 subs w1)
  case Nil
  then show ?case by (simp add: prog_Inr)
next
  case (Cons b bs)
  from Cons.prems obtain sta sub wa stb more where
    1: "commit_story_batch env em st b w = (Inr (sta, sub), wa)" and
    2: "commit_story_batches env em sta bs wa = (Inr (stb, more), w1)" and
    3: "st1 = stb" "subs = sub # more"
    by (auto simp: prog_Inr)
  from commit_story_batch_Inr [OF 1] Cons.IH [OF 2] 3 show ?case by simp
qed

lemma commit_Inr:
  assumes "commit now env em order self w = (Inr res, w1)"
  shows "\<exists>ls es reqs its wa wb.
     map_err iteration_entity order = Inr reqs \<and> em reqs wa = (Inr its, wb) \<and>
     labels_after res = ls \<and> epics_after res = es \<and> iterations_after res = its \<and>
     list_all2 (linked (self\<lparr>labels := ls, epics := es, iterations := its\<rparr>))
       (stories self) (concat (submitted_batches res))"
proof -
  from assms obtain st1 wa st2 wb st3 wc st4 subs where
    1: "commit_labels now em (self, {}, []) w = (Inr st1, wa)" and
    2: "commit_epics em st1 wa = (Inr st2, wb)" and
    3: "commit_iterations em order st2 wb = (Inr st3, wc)" and
    4: "commit_story_batches env em st3 (batches_of BATCH_SIZE (stories (fst st3))) wc
          = (Inr (st4, subs), w1)" and
    5: "res = \<lparr>created_entities = snd (snd st4), labels_after = labels (fst st4),
               epics_after = epics (fst st4), iterations_after = iterations (fst st4),
               submitted_batches = subs\<rparr>"
    unfolding commit_def by (auto simp: prog_Inr)
  from commit_labels_Inr [OF 1] obtain ls where a: "fst st1 = self\<lparr>labels := ls\<rparr>" by auto
  from commit_epics_Inr [OF 2] obtain es where b: "fst st2 = (fst st1)\<lparr>epics := es\<rparr>" by auto
  from commit_iterations_Inr [OF 3] obtain reqs its wd where
    r: "map_err iteration_entity order = Inr reqs" and e: "em reqs wb = (Inr its, wd)" and
    c: "fst st3 = (fst st2)\<lparr>iterations := its\<rparr>" by auto
  from commit_story_batches_Inr [OF 4] have d: "fst st4 = fst st3" and
    l: "list_all2 (list_all2 (linked (fst st3))) (batches_of BATCH_SIZE (stories (fst st3))) subs"
    by auto
  have s3: "fst st3 = self\<lparr>labels := ls, epics := es, iterations := its\<rparr>"
    by (simp add: a b c)
  have "concat (batches_of BATCH_SIZE (stories (fst st3))) = stories self"
    by (simp add: concat_batches_of BATCH_SIZE_def s3)
  with list_all2_concat [OF l] have
    "list_all2 (linked (fst st3)) (stories self) (concat subs)" by simp
  with r e show ?thesis
    unfolding 5 d s3 by auto
qed

section \<open>Iterations and their keys\<close>

lemma iteration_entity_Inr:
  assumes "iteration_entity k = Inr it"
  obtains key p s e where "k = KStr key" "split_on (CHR ''|'') key = [p, s, e]"
    "key = iteration_key p s e" "type it = ''iteration''"
    "pt_iteration_id it = Some (VStr OtherObj p)" "entity it = iteration_payload p s e"
proof (cases k)
  case (KStr key)
  with assms obtain p s e where sp: "split_on (CHR ''|'') key = [p, s, e]"
    and it: "it = \<lparr>type = ''iteration'', entity = iteration_payload p s e, iteration = None,
               pt_iteration_id = Some (VStr OtherObj p), parsed_row = None,
               imported_entity = None, error_message = None\<rparr>"
    by (auto simp: iteration_payload_def split: list.splits)
  from split_on_three [OF sp] have "key = iteration_key p s e"
    by (simp add: iteration_key_def)
  with KStr sp it that show ?thesis by simp
qed (insert assms, auto)

lemma iteration_entity_key:
  assumes "iteration_entity (KStr (iteration_key p s e)) = Inr it"
  shows "pt_iteration_id it = Some (VStr OtherObj p) \<and> entity it = iteration_payload p s e"
proof -
  from assms obtain key p' s' e' where
    k: "KStr (iteration_key p s e) = KStr key" and
    sp: "split_on (CHR ''|'') key = [p', s', e']" and
    it: "pt_iteration_id it = Some (VStr OtherObj p')" "entity it = iteration_payload p' s' e'"
    by (rule iteration_entity_Inr)
  from k sp have "split_on (CHR ''|'') (p @ CHR ''|'' # s @ CHR ''|'' # e) = [p', s', e']"
    by (simp add: iteration_key_def)
  from split_on_key [OF this] it show ?thesis by simp
qed

lemma iteration_payload_inject:
  "iteration_payload p s e = iteration_payload p' s' e' \<longleftrightarrow> p = p' \<and> s = s' \<and> e = e'"
  by (auto simp: iteration_payload_def)

lemma pt_iteration_loop_other:
  assumes "pt_iteration_loop d its = Inr pm"
    and "list_all (\<lambda>it. \<exists>i p. pt_iteration_id it = Some (VStr i p)) its"
    and "k \<notin> pt_id_of ` set its"
  shows "pm k = d k"
  using assms
proof (induction its arbitrary: d)
  case Nil
  then show ?case by simp
next
  case (Cons x xs)
  from Cons.prems(2) obtain i p where p: "pt_iteration_id x = Some (VStr i p)" by auto
  then have px: "pt_id_of x = p" by (simp add: pt_id_of_def)
  from Cons.prems(1) p obtain tid where
    r: "pt_iteration_loop (d(p \<mapsto> tid)) xs = Inr pm"
    by (auto simp: and_then_eq_Inr item_index_def)
  from Cons.prems(2,3) have "pm k = (d(p \<mapsto> tid)) k"
    by (intro Cons.IH [OF r]) auto
  with Cons.prems(3) px show ?case by auto
qed

lemma pt_iteration_loop_lookup:
  assumes "pt_iteration_loop d its = Inr pm"
    and "list_all (\<lambda>it. \<exists>i p. pt_iteration_id it = Some (VStr i p)) its"
    and "distinct (map pt_id_of its)"
    and "it \<in> set its"
  shows "\<exists>c tid. imported_entity it = Some c \<and> subscript c ''id'' = Inr tid \<and>
           pm (pt_id_of it) = Some tid"
  using assms
proof (induction its arbitrary: d)
  case Nil
  then show ?case by simp
next
  case (Cons x xs)
  from Cons.prems(2) obtain i p where p: "pt_iteration_id x = Some (VStr i p)" by auto
  then have px: "pt_id_of x = p" by (simp add: pt_id_of_def)
  from Cons.prems(1) p obtain c tid where
    c: "imported_entity x = Some c" "subscript c ''id'' = Inr tid" and
    r: "pt_iteration_loop (d(p \<mapsto> tid)) xs = Inr pm"
    by (auto simp: and_then_eq_Inr item_index_def split: option.splits)
  show ?case
  proof (cases "it \<in> set xs")
    case True
    from Cons.prems(2,3) show ?thesis
      by (intro Cons.IH [OF r _ _ True]) auto
  next
    case False
    with Cons.prems(4) have "it = x" by simp
    moreover from Cons.prems(2,3) px have "pm p = (d(p \<mapsto> tid)) p"
      by (intro pt_iteration_loop_other [OF r]) auto
    ultimately show ?thesis using c px by simp
  qed
qed

lemma assign_story_to_epic_fields:
  "assign_story_to_epic m s = Inr s1 \<Longrightarrow>
     pt_iteration_id s1 = pt_iteration_id s \<and> iteration s1 = iteration s"
  by (auto simp: assign_story_to_epic_def and_then_eq_Inr)

lemma list_all2_creates:
  assumes "list_all2 (\<lambda>c x. \<exists>e. c = x\<lparr>imported_entity := Some e\<rparr>) its reqs"
  shows "length its = length reqs \<and>
         (\<forall>j < length reqs. pt_iteration_id (its ! j) = pt_iteration_id (reqs ! j) \<and>
                             entity (its ! j) = entity (reqs ! j))"
  using assms by (auto simp: list_all2_conv_all_nth)

lemma mock_emitter_creates:
  "mock_emitter items w = (Inr created, w1) \<Longrightarrow>
   list_all2 (\<lambda>c x. \<exists>e. c = x\<lparr>imported_entity := Some e\<rparr>) created items"
proof (induction items arbitrary: created w w1)
  case Nil
  then show ?case by (simp add: pure_w_Inr)
next
  case (Cons item rest)
  from Cons.prems obtain rest1 wa where
    r: "mock_emitter rest wa = (Inr rest1, w1)" and
    c: "created = item\<lparr>imported_entity := Some (mock_created_entity item (mock_global_id w))\<rparr> # rest1"
    by (clarsimp simp: prog_Inr)
  from Cons.IH [OF r] have "list_all2 (\<lambda>c x. \<exists>e. c = x\<lparr>imported_entity := Some e\<rparr>) rest1 rest" .
  moreover have "\<exists>e. item\<lparr>imported_entity := Some (mock_created_entity item (mock_global_id w))\<rparr>
      = item\<lparr>imported_entity := Some e\<rparr>" by (rule exI) (rule refl)
  ultimately show ?case unfolding c by simp
qed

lemma creates_all_mock_emitter: "creates_all mock_emitter"
  unfolding creates_all_def by (blast intro: mock_emitter_creates)

lemma create_item_Inr:
  "create_item env item w = (Inr c, w1) \<Longrightarrow> \<exists>e. c = item\<lparr>imported_entity := Some e\<rparr>"
  by (auto simp: create_item_def split: prod.splits sum.splits)

lemma create_non_stories_creates:
  "list_all (\<lambda>x. type x \<noteq> ''story'') items \<Longrightarrow>
   create_non_stories env items w = (Inr created, w1) \<Longrightarrow>
   list_all2 (\<lambda>c x. \<exists>e. c = x\<lparr>imported_entity := Some e\<rparr>) created items"
proof (induction items arbitrary: created w w1)
  case Nil
  then show ?case by (simp add: pure_w_Inr)
next
  case (Cons item rest)
  from Cons.prems have "\<exists>c wa rest1. create_item env item w = (Inr c, wa) \<and>
      create_non_stories env rest wa = (Inr rest1, w1) \<and> created = c # rest1"
    by (simp add: prog_Inr)
  then obtain c wa rest1 where
    "create_item env item w = (Inr c, wa)"
    "create_non_stories env rest wa = (Inr rest1, w1)"
    "created = c # rest1"
    by blast
  with Cons.IH Cons.prems(1) show ?case by (auto dest: create_item_Inr)
qed

lemma story_batches_no_stories:
  "list_all (\<lambda>x. type x \<noteq> ''story'') items \<Longrightarrow> story_batches env items [] = pure_w []"
  by (induction items) (auto simp: process_batch_def)

lemma creates_all_sc_creator: "creates_all (sc_creator env)"
  unfolding creates_all_def
  by (auto simp: sc_creator_def story_batches_no_stories prog_Inr dest: create_non_stories_creates)

lemma collect_story_in_iteration:
  assumes "type story = ''story''" and "in_iteration story p s e"
  shows "collect self story =
           (self\<lparr>stories := stories self @ [story],
                  iteration_strings := insert (KStr (iteration_key p s e)) (iteration_strings self)\<rparr>,
            Inr [(''story'', 1)])"
  using assms by (auto simp: collect_def in_iteration_def iteration_key_def)

lemma iteration_key_sprint:
  assumes "iteration_key p s e = iteration_key ''42'' ''2024-01-01'' ''2024-01-14''"
  shows "p = ''42'' \<and> s = ''2024-01-01'' \<and> e = ''2024-01-14''"
proof -
  have "split_on (CHR ''|'') (iteration_key ''42'' ''2024-01-01'' ''2024-01-14'')
          = [''42'', ''2024-01-01'', ''2024-01-14'']"
    by (simp add: iteration_key_def)
  with assms have "split_on (CHR ''|'') (p @ CHR ''|'' # s @ CHR ''|'' # e)
          = [''42'', ''2024-01-01'', ''2024-01-14'']"
    by (simp add: iteration_key_def)
  from split_on_key [OF this] show ?thesis by simp
qed

lemma sprint_run_returns:
  "(case fst (commit ''T'' no_files mock_emitter
        [KStr (iteration_key ''42'' ''2024-01-01'' ''2024-01-14'')]
        (collected [build_run_label_entity ''T'',
                    sprint_story ''A'' ''42'' ''2024-01-01'' ''2024-01-14'',
                    sprint_story ''B'' ''42'' ''2024-01-01'' ''2024-01-14'']) fresh_world) of
      Inl e \<Rightarrow> False | Inr res \<Rightarrow> True)"
  by code_simp

text \<open>
  Claim C5, amended. Let \<^verbatim>\<open>commit\<close> return, with an emitter that creates all it is given,
  on a collector whose iteration keys hold the key of every story's source iteration (as
  \<^verbatim>\<open>collect\<close> leaves them), iterated in any order, and let no two of the keys share the
  source iteration id. Then every story is submitted, and for every story with the source
  iteration (id, start, end): exactly one created iteration was requested for that triple,
  and the submitted story carries as \<^verbatim>\<open>iteration_id\<close> the target id of that iteration. So
  all the stories of one triple carry the same id.
\<close>

theorem commit_links_iterations:
  assumes run: "commit now env emitter iteration_order self w = (Inr res, w1)"
    and em: "creates_all emitter"
    and ord: "distinct iteration_order" "set iteration_order = iteration_strings self"
    and coll: "\<forall>story \<in> set (stories self). \<forall>p s e. in_iteration story p s e \<longrightarrow>
                 KStr (iteration_key p s e) \<in> iteration_strings self"
    and uniq: "\<forall>p s e s' e'. KStr (iteration_key p s e) \<in> iteration_strings self \<longrightarrow>
                 KStr (iteration_key p s' e') \<in> iteration_strings self \<longrightarrow> s' = s \<and> e' = e"
  shows "length (concat (submitted_batches res)) = length (stories self) \<and>
    (\<forall>n p s e. n < length (stories self) \<longrightarrow> in_iteration (stories self ! n) p s e \<longrightarrow>
       (\<exists>it created target_id.
          filter (\<lambda>x. entity x = iteration_payload p s e) (iterations_after res) = [it] \<and>
          imported_entity it = Some created \<and> subscript created ''id'' = Inr target_id \<and>
          map_of (entity (concat (submitted_batches res) ! n)) ''iteration_id'' = Some target_id))"
proof -
  from commit_Inr [OF run] obtain ls es reqs its wa wb where
    r: "map_err iteration_entity iteration_order = Inr reqs" and
    e: "emitter reqs wa = (Inr its, wb)" and
    ia: "iterations_after res = its" and
    l: "list_all2 (linked (self\<lparr>labels := ls, epics := es, iterations := its\<rparr>))
          (stories self) (concat (submitted_batches res))"
    by blast
  let ?self = "self\<lparr>labels := ls, epics := es, iterations := its\<rparr>"
  from map_err_list_all2 [OF r] have
    R: "list_all2 (\<lambda>k x. iteration_entity k = Inr x) iteration_order reqs" .
  then have len_r: "length reqs = length iteration_order"
    and req: "\<And>j. j < length iteration_order \<Longrightarrow> iteration_entity (iteration_order ! j) = Inr (reqs ! j)"
    by (auto simp: list_all2_conv_all_nth)
  have "list_all (\<lambda>x. type x \<noteq> ''story'') reqs"
    unfolding list_all_length
  proof (intro allI impI)
    fix j assume "j < length reqs"
    with req [of j] len_r show "type (reqs ! j) \<noteq> ''story''"
      by (auto elim!: iteration_entity_Inr)
  qed
  with em e have "list_all2 (\<lambda>c x. \<exists>e. c = x\<lparr>imported_entity := Some e\<rparr>) its reqs"
    unfolding creates_all_def by blast
  from list_all2_creates [OF this] len_r have len_i: "length its = length iteration_order"
    and same: "\<And>j. j < length iteration_order \<Longrightarrow>
        pt_iteration_id (its ! j) = pt_iteration_id (reqs ! j) \<and> entity (its ! j) = entity (reqs ! j)"
    by auto
  have fields: "\<exists>p s e. iteration_order ! j = KStr (iteration_key p s e) \<and>
      pt_iteration_id (its ! j) = Some (VStr OtherObj p) \<and> entity (its ! j) = iteration_payload p s e"
    if "j < length iteration_order" for j
    using req [OF that] same [OF that] by (auto elim!: iteration_entity_Inr)
  have strs: "list_all (\<lambda>it. \<exists>i p. pt_iteration_id it = Some (VStr i p)) its"
    unfolding list_all_length using fields len_i by metis
  have in_set: "iteration_order ! j \<in> iteration_strings self" if "j < length iteration_order" for j
    using that ord(2) nth_mem by blast
  have dist: "distinct (map pt_id_of its)"
    unfolding distinct_conv_nth
  proof (intro allI impI)
    fix i j assume i: "i < length (map pt_id_of its)" and j: "j < length (map pt_id_of its)"
      and ne: "i \<noteq> j"
    from i j len_i have i': "i < length iteration_order" and j': "j < length iteration_order" by simp_all
    from fields [OF i'] obtain p s e where
      a: "iteration_order ! i = KStr (iteration_key p s e)"
         "pt_iteration_id (its ! i) = Some (VStr OtherObj p)" by blast
    from fields [OF j'] obtain p' s' e' where
      b: "iteration_order ! j = KStr (iteration_key p' s' e')"
         "pt_iteration_id (its ! j) = Some (VStr OtherObj p')" by blast
    show "map pt_id_of its ! i \<noteq> map pt_id_of its ! j"
    proof
      assume "map pt_id_of its ! i = map pt_id_of its ! j"
      with i j a(2) b(2) have pp: "p' = p" by (simp add: pt_id_of_def)
      from in_set [OF i'] in_set [OF j'] a(1) b(1) pp uniq have "s' = s \<and> e' = e" by metis
      with a(1) b(1) pp have "iteration_order ! i = iteration_order ! j" by simp
      with nth_eq_iff_index_eq [OF ord(1) i' j'] ne show False by simp
    qed
  qed
  have len: "length (concat (submitted_batches res)) = length (stories self)"
    using l by (simp add: list_all2_lengthD)
  have main: "\<exists>it created target_id.
          filter (\<lambda>x. entity x = iteration_payload p s e) (iterations_after res) = [it] \<and>
          imported_entity it = Some created \<and> subscript created ''id'' = Inr target_id \<and>
          map_of (entity (concat (submitted_batches res) ! n)) ''iteration_id'' = Some target_id"
    if n: "n < length (stories self)" and it: "in_iteration (stories self ! n) p s e" for n p s e
  proof -
    from n it coll have "KStr (iteration_key p s e) \<in> iteration_strings self"
      using nth_mem by blast
    with ord(2) have "KStr (iteration_key p s e) \<in> set iteration_order" by simp
    then obtain j where j: "j < length iteration_order"
      and oj: "iteration_order ! j = KStr (iteration_key p s e)"
      unfolding in_set_conv_nth by blast
    from req [OF j] oj have "iteration_entity (KStr (iteration_key p s e)) = Inr (reqs ! j)" by simp
    from iteration_entity_key [OF this] same [OF j] have
      pj: "pt_iteration_id (its ! j) = Some (VStr OtherObj p)" and
      ej: "entity (its ! j) = iteration_payload p s e" by simp_all
    from pj have pid: "pt_id_of (its ! j) = p" by (simp add: pt_id_of_def)
    from l n have "linked ?self (stories self ! n) (concat (submitted_batches res) ! n)"
      by (simp add: list_all2_conv_all_nth)
    then obtain m pm s1 where
      pm: "collect_pt_iteration_mapping its = Inr pm" and
      a1: "assign_story_to_epic m (stories self ! n) = Inr s1" and
      a2: "assign_story_to_iteration pm s1 = Inr (concat (submitted_batches res) ! n)"
      by (auto simp: linked_def)
    from j len_i have mem: "its ! j \<in> set its" by simp
    from pt_iteration_loop_lookup [OF pm [unfolded collect_pt_iteration_mapping_def] strs dist mem] pid
    obtain c tid where c: "imported_entity (its ! j) = Some c" "subscript c ''id'' = Inr tid"
      "pm p = Some tid" by auto
    from it obtain i where "pt_iteration_id (stories self ! n) = Some (VStr i p)" and ne: "p \<noteq> []"
      by (auto simp: in_iteration_def)
    with assign_story_to_epic_fields [OF a1] have "pt_iteration_id s1 = Some (VStr i p)" by simp
    with a2 c(3) ne have "concat (submitted_batches res) ! n =
        s1\<lparr>entity := AList.update ''iteration_id'' tid (entity s1)\<rparr>"
      by (auto simp: assign_story_to_iteration_def item_index_def)
    then have "map_of (entity (concat (submitted_batches res) ! n)) ''iteration_id'' = Some tid"
      by simp
    moreover have "filter (\<lambda>x. entity x = iteration_payload p s e) its = [its ! j]"
    proof (rule filter_unique_index)
      show "j < length its" using j len_i by simp
      show "entity (its ! j) = iteration_payload p s e" by (rule ej)
      show "\<forall>i<length its. entity (its ! i) = iteration_payload p s e \<longrightarrow> i = j"
      proof (intro allI impI)
        fix i assume i: "i < length its" and ei: "entity (its ! i) = iteration_payload p s e"
        from i len_i have i': "i < length iteration_order" by simp
        from fields [OF i'] ei have "iteration_order ! i = KStr (iteration_key p s e)"
          by (auto simp: iteration_payload_inject)
        with oj have "iteration_order ! i = iteration_order ! j" by simp
        with nth_eq_iff_index_eq [OF ord(1) i' j] show "i = j" by simp
      qed
    qed
    ultimately show ?thesis using c(1,2) ia by blast
  qed
  from len main show ?thesis by blast
qed

theorem commit_links_iterations_witness:
  "\<exists>res w1 it created target_id.
     commit ''T'' no_files mock_emitter
        [KStr (iteration_key ''42'' ''2024-01-01'' ''2024-01-14'')]
        (collected [build_run_label_entity ''T'',
                    sprint_story ''A'' ''42'' ''2024-01-01'' ''2024-01-14'',
                    sprint_story ''B'' ''42'' ''2024-01-01'' ''2024-01-14'']) fresh_world = (Inr res, w1) \<and>
     filter (\<lambda>x. entity x = iteration_payload ''42'' ''2024-01-01'' ''2024-01-14'')
       (iterations_after res) = [it] \<and>
     imported_entity it = Some created \<and> subscript created ''id'' = Inr target_id \<and>
     map_of (entity (concat (submitted_batches res) ! 0)) ''iteration_id'' = Some target_id \<and>
     map_of (entity (concat (submitted_batches res) ! 1)) ''iteration_id'' = Some target_id"
proof -
  let ?k = "iteration_key ''42'' ''2024-01-01'' ''2024-01-14''"
  let ?a = "sprint_story ''A'' ''42'' ''2024-01-01'' ''2024-01-14''"
  let ?b = "sprint_story ''B'' ''42'' ''2024-01-01'' ''2024-01-14''"
  let ?c = "collected [build_run_label_entity ''T'', ?a, ?b]"
  let ?run = "commit ''T'' no_files mock_emitter [KStr ?k] ?c fresh_world"
  have st: "stories ?c = [?a, ?b]" and ks: "iteration_strings ?c = {KStr ?k}"
    by (simp_all add: collected_def collect_def empty_collector_def sprint_story_def
          build_run_label_entity_def iteration_key_def)
  have ia: "in_iteration ?a ''42'' ''2024-01-01'' ''2024-01-14''"
    and ib: "in_iteration ?b ''42'' ''2024-01-01'' ''2024-01-14''"
    by (simp_all add: in_iteration_def sprint_story_def)
  from sprint_run_returns obtain res where "fst ?run = Inr res"
    by (cases "fst ?run") auto
  then have run: "?run = (Inr res, snd ?run)" by (simp add: prod_eq_iff)
  have d: "distinct [KStr ?k]" by simp
  have s: "set [KStr ?k] = iteration_strings ?c" by (simp add: ks)
  have coll: "\<forall>story \<in> set (stories ?c). \<forall>p s e. in_iteration story p s e \<longrightarrow>
                 KStr (iteration_key p s e) \<in> iteration_strings ?c"
    unfolding st ks by (auto simp: in_iteration_def sprint_story_def)
  have uniq: "\<forall>p s e s' e'. KStr (iteration_key p s e) \<in> iteration_strings ?c \<longrightarrow>
                 KStr (iteration_key p s' e') \<in> iteration_strings ?c \<longrightarrow> s' = s \<and> e' = e"
    unfolding ks by (auto dest: iteration_key_sprint)
  from commit_links_iterations [OF run creates_all_mock_emitter d s coll uniq]
  have all: "\<And>n. n < length (stories ?c) \<Longrightarrow>
      in_iteration (stories ?c ! n) ''42'' ''2024-01-01'' ''2024-01-14'' \<Longrightarrow>
       (\<exists>it created target_id.
          filter (\<lambda>x. entity x = iteration_payload ''42'' ''2024-01-01'' ''2024-01-14'')
            (iterations_after res) = [it] \<and>
          imported_entity it = Some created \<and> subscript created ''id'' = Inr target_id \<and>
          map_of (entity (concat (submitted_batches res) ! n)) ''iteration_id'' = Some target_id)"
    by blast
  from all [of 0] ia st obtain it created target_id where
    0: "filter (\<lambda>x. entity x = iteration_payload ''42'' ''2024-01-01'' ''2024-01-14'')
            (iterations_after res) = [it]"
       "imported_entity it = Some created" "subscript created ''id'' = Inr target_id"
       "map_of (entity (concat (submitted_batches res) ! 0)) ''iteration_id'' = Some target_id"
    by auto
  from all [of 1] ib st 0(1-3)
  have "map_of (entity (concat (submitted_batches res) ! 1)) ''iteration_id'' = Some target_id"
    by auto
  with run 0 show ?thesis by blast
qed

text \<open>
  Without the condition on the keys the claim fails. \<^verbatim>\<open>collect_pt_iteration_mapping\<close> keys
  the created iterations by the source id alone: of two keys with the id 42 the one created
  last takes the entry. In this dry run the stories A and B are in the iteration 42 that
  starts on 2024-01-01, C and D in the iteration 42 that starts on 2024-02-01; two
  iterations are created (ids 1 and 2), and in either order of the keys all four stories
  are submitted with the id 2, so the two stories of the key created first carry the id of
  the other iteration.
\<close>

theorem commit_links_iterations_counterexample:
  "map (\<lambda>iteration_order.
      case fst (commit ''T'' no_files mock_emitter iteration_order
        (collected [build_run_label_entity ''T'',
                    sprint_story ''A'' ''42'' ''2024-01-01'' ''2024-01-14'',
                    sprint_story ''B'' ''42'' ''2024-01-01'' ''2024-01-14'',
                    sprint_story ''C'' ''42'' ''2024-02-01'' ''2024-02-14'',
                    sprint_story ''D'' ''42'' ''2024-02-01'' ''2024-02-14'']) fresh_world) of
        Inl e \<Rightarrow> ([], [])
      | Inr res \<Rightarrow>
          (map (\<lambda>it. (map_of (entity it) ''start_date'',
                       and_then (item_index (imported_entity it)) (\<lambda>c. subscript c ''id'')))
             (iterations_after res),
           map (\<lambda>s. (map_of (entity s) ''name'', map_of (entity s) ''iteration_id''))
             (concat (submitted_batches res))))
     [[KStr (iteration_key ''42'' ''2024-01-01'' ''2024-01-14''),
       KStr (iteration_key ''42'' ''2024-02-01'' ''2024-02-14'')],
      [KStr (iteration_key ''42'' ''2024-02-01'' ''2024-02-14''),
       KStr (iteration_key ''42'' ''2024-01-01'' ''2024-01-14'')]]
   = [([(Some (VStr OtherObj ''2024-01-01''), Inr (VInt 1)),
        (Some (VStr OtherObj ''2024-02-01''), Inr (VInt 2))],
       [(Some (VStr OtherObj ''A''), Some (VInt 2)), (Some (VStr OtherObj ''B''), Some (VInt 2)),
        (Some (VStr OtherObj ''C''), Some (VInt 2)), (Some (VStr OtherObj ''D''), Some (VInt 2))]),
      ([(Some (VStr OtherObj ''2024-02-01''), Inr (VInt 1)),
        (Some (VStr OtherObj ''2024-01-01''), Inr (VInt 2))],
       [(Some (VStr OtherObj ''A''), Some (VInt 2)), (Some (VStr OtherObj ''B''), Some (VInt 2)),
        (Some (VStr OtherObj ''C''), Some (VInt 2)), (Some (VStr OtherObj ''D''), Some (VInt 2))])]"
  by code_simp

section \<open>The Ledger only grows\<close>

lemma appendsI: "(\<And>w. prefix (imported_entities_csv w) (imported_entities_csv (snd (m w)))) \<Longrightarrow> appends m"
  by (simp add: appends_def)

lemma appendsD: "appends m \<Longrightarrow> prefix (imported_entities_csv w) (imported_entities_csv (snd (m w)))"
  by (simp add: appends_def)

lemma appends_pure: "appends (pure_w x)"
  by (simp add: appends_def pure_w_def)

lemma appends_lift: "appends (lift_w m)"
  by (simp add: appends_def lift_w_def)

lemma appends_bind:
  fixes m :: "('b, 'a) prog"
  assumes "appends m" and "\<And>x. appends (f x)"
  shows "appends (bind_w m f)"
proof (rule appendsI)
  fix w :: "'b world"
  obtain r w1 where m: "m w = (r, w1)" by (cases "m w") auto
  from appendsD [OF assms(1), where w = w] m
  have 1: "prefix (imported_entities_csv w) (imported_entities_csv w1)" by simp
  show "prefix (imported_entities_csv w) (imported_entities_csv (snd (bind_w m f w)))"
  proof (cases r)
    case (Inl e)
    with m 1 show ?thesis by (simp add: bind_w_def)
  next
    case (Inr x)
    from appendsD [OF assms(2) [of x], where w = w1] have "prefix (imported_entities_csv w1) (imported_entities_csv (snd (f x w1)))" .
    with 1 m Inr show ?thesis by (auto simp: bind_w_def intro: prefix_order.trans)
  qed
qed

lemma appends_effect:
  "(\<And>w. prefix (imported_entities_csv w) (imported_entities_csv (g w))) \<Longrightarrow> appends (effect_w g)"
  by (simp add: appends_def effect_w_def)

lemma appends_if: "appends m \<Longrightarrow> appends n \<Longrightarrow> appends (if b then m else n)"
  by simp

lemma appends_case_prod: "(\<And>a b. appends (f a b)) \<Longrightarrow> appends (case p of (a, b) \<Rightarrow> f a b)"
  by (cases p) simp

lemma write_ledger_appends:
  "prefix (imported_entities_csv w) (imported_entities_csv (write_to_imported_entities_csv es ModeA w))"
  by (simp add: write_to_imported_entities_csv_def)

lemma write_failed_stories_ledger [simp]:
  "imported_entities_csv (write_failed_stories fs w) = imported_entities_csv w"
  by (simp add: write_failed_stories_def)

lemma api_update_ledger: "imported_entities_csv (w\<lparr>api := b\<rparr>) = imported_entities_csv w"
  by simp

lemma write_failed_files_csv_appends: "appends (write_failed_files_csv fs)"
  by (rule appendsI) (simp add: write_failed_files_csv_def split: prod.splits)

lemma upload_files_appends:
  fixes env :: "'b env"
  shows "appends (upload_files env dry paths)"
proof (rule appendsI)
  fix w :: "'b world"
  have "prefix (imported_entities_csv (w\<lparr>api := b\<rparr>))
          (imported_entities_csv (write_to_imported_entities_csv es ModeA (w\<lparr>api := b\<rparr>)))" for b es
    by (rule write_ledger_appends)
  then show "prefix (imported_entities_csv w) (imported_entities_csv (snd (upload_files env dry paths w)))"
    by (auto simp: upload_files_def split: prod.splits sum.splits)
qed

lemmas appends_intros = appends_bind appends_pure appends_lift appends_if appends_case_prod

lemma process_comment_files_appends: "appends (process_comment_files env dry fs comment)"
  unfolding process_comment_files_def Let_def
  by (cases comment) (auto intro!: appends_intros upload_files_appends)

lemma story_comments_loop_appends: "appends (story_comments_loop env dry fs cs)"
  by (induction cs) (auto intro!: appends_intros process_comment_files_appends)

lemma process_story_files_appends: "appends (process_story_files env dry story)"
  unfolding process_story_files_def Let_def
  by (auto intro!: appends_intros story_comments_loop_appends)

lemma process_files_loop_appends: "appends (process_files_loop env dry batch)"
  by (induction batch) (auto intro!: appends_intros process_story_files_appends)

lemma process_files_for_stories_appends: "appends (process_files_for_stories env dry batch)"
  unfolding process_files_for_stories_def
  by (auto intro!: appends_intros process_files_loop_appends write_failed_files_csv_appends
        appends_effect)

lemma create_item_appends:
  fixes env :: "'b env"
  shows "appends (create_item env item)"
proof (rule appendsI)
  fix w :: "'b world"
  have "prefix (imported_entities_csv (w\<lparr>api := b\<rparr>))
          (imported_entities_csv (write_to_imported_entities_csv es ModeA (w\<lparr>api := b\<rparr>)))" for b es
    by (rule write_ledger_appends)
  then show "prefix (imported_entities_csv w) (imported_entities_csv (snd (create_item env item w)))"
    by (auto simp: create_item_def split: prod.splits sum.splits)
qed

lemma create_non_stories_appends: "appends (create_non_stories env items)"
  by (induction items) (auto intro!: appends_intros create_item_appends)

lemma bulk_call_appends:
  fixes env :: "'b env"
  shows "appends (\<lambda>w. case sc_post env endpoint payload (api w) of
                  (Inl e, b) \<Rightarrow> (Inr [], write_failed_stories processed_stories (w\<lparr>api := b\<rparr>))
                | (Inr answer, b) \<Rightarrow>
                    (case py_iter answer of
                       Inl e \<Rightarrow> (Inr [], write_failed_stories processed_stories (w\<lparr>api := b\<rparr>))
                     | Inr created \<Rightarrow>
                         (Inr (map (\<lambda>(c, story). story\<lparr>imported_entity := Some c\<rparr>)
                                 (zip created processed_stories)),
                          write_to_imported_entities_csv created ModeA (w\<lparr>api := b\<rparr>))))"
proof (rule appendsI)
  fix w :: "'b world"
  have "prefix (imported_entities_csv (w\<lparr>api := b\<rparr>))
          (imported_entities_csv (write_to_imported_entities_csv es ModeA (w\<lparr>api := b\<rparr>)))" for b es
    by (rule write_ledger_appends)
  then show "prefix (imported_entities_csv w) (imported_entities_csv (snd (case sc_post env endpoint payload (api w) of
                  (Inl e, b) \<Rightarrow> (Inr [], write_failed_stories processed_stories (w\<lparr>api := b\<rparr>))
                | (Inr answer, b) \<Rightarrow>
                    (case py_iter answer of
                       Inl e \<Rightarrow> (Inr [], write_failed_stories processed_stories (w\<lparr>api := b\<rparr>))
                     | Inr created \<Rightarrow>
                         (Inr (map (\<lambda>(c, story). story\<lparr>imported_entity := Some c\<rparr>)
                                 (zip created processed_stories)),
                          write_to_imported_entities_csv created ModeA (w\<lparr>api := b\<rparr>))))))"
    by (auto split: prod.splits sum.splits)
qed

lemma process_batch_appends: "appends (process_batch env batch)"
  unfolding process_batch_def
  by (auto intro!: appends_intros process_files_for_stories_appends bulk_call_appends)

lemma story_batches_appends: "appends (story_batches env items batch)"
  by (induction items arbitrary: batch) (auto intro!: appends_intros process_batch_appends)

lemma sc_creator_appends: "appends (sc_creator env items)"
  unfolding sc_creator_def
  by (auto intro!: appends_intros create_non_stories_appends story_batches_appends)

lemma record_created_appends: "appends (record_created t dry items written_entities)"
  unfolding record_created_def
  by (auto intro!: appends_intros appends_effect write_ledger_appends)

lemma commit_epics_appends:
  assumes "\<And>items. appends (emitter items)"
  shows "appends (commit_epics emitter st)"
  unfolding commit_epics_def
  by (auto intro!: appends_intros assms record_created_appends split: prod.splits)

lemma commit_iterations_appends:
  assumes "\<And>items. appends (emitter items)"
  shows "appends (commit_iterations emitter iteration_order st)"
  unfolding commit_iterations_def
  by (auto intro!: appends_intros assms record_created_appends split: prod.splits)

lemma process_story_batch_appends:
  fixes env :: "'b env"
  assumes "\<And>items. appends (emitter items)"
  shows "appends (process_story_batch env emitter dry batch)"
  unfolding process_story_batch_def
proof (intro appends_bind process_files_for_stories_appends, rule appendsI)
  fix x and w :: "'b world"
  from appendsD [OF assms [of x], where w = w]
  show "prefix (imported_entities_csv w)
          (imported_entities_csv (snd (case emitter x w of
               (Inr created_stories, w1) \<Rightarrow> (Inr created_stories, w1)
             | (Inl e, w1) \<Rightarrow> (Inr [], write_failed_stories x w1))))"
    by (auto split: prod.splits sum.splits)
qed

lemma commit_story_batch_appends:
  assumes "\<And>items. appends (emitter items)"
  shows "appends (commit_story_batch env emitter st batch)"
  unfolding commit_story_batch_def
  by (auto intro!: appends_intros assms process_story_batch_appends appends_effect
        write_ledger_appends split: prod.splits)

lemma commit_story_batches_appends:
  assumes "\<And>items. appends (emitter items)"
  shows "appends (commit_story_batches env emitter st batches)"
  by (induction batches arbitrary: st)
     (auto intro!: appends_intros assms commit_story_batch_appends)

lemma ledger_rows_append_wf:
  "ledger_rows [c] \<noteq> [] \<Longrightarrow> ledger_rows (c # es) = ledger_rows [c] @ ledger_rows es"
  by (auto split: sum.splits)

lemma create_item_ledger:
  assumes "create_item env x w = (Inr y, wa)"
  shows "\<exists>c. imported_entity y = Some c \<and>
           imported_entities_csv wa = imported_entities_csv w @ ledger_rows [c]"
  using assms
  by (auto simp: create_item_def write_to_imported_entities_csv_def split: prod.splits sum.splits)

lemma create_non_stories_ledger:
  assumes "create_non_stories env items w = (Inr created, wa)"
    and "list_all (\<lambda>x. type x \<noteq> ''story'') items"
    and "list_all has_ledger_row created"
  shows "\<exists>es. imported_entities created = Inr es \<and> length es = length created \<and>
           imported_entities_csv wa = imported_entities_csv w @ ledger_rows es"
  using assms
proof (induction items arbitrary: created w)
  case Nil
  then show ?case by (simp add: pure_w_Inr imported_entities_def)
next
  case (Cons x items)
  from Cons.prems(1,2) obtain y w1 rest where
    y: "create_item env x w = (Inr y, w1)" and
    r: "create_non_stories env items w1 = (Inr rest, wa)" and
    c: "created = y # rest"
    by (auto simp: prog_Inr)
  from create_item_ledger [OF y] obtain cy where cy: "imported_entity y = Some cy"
    "imported_entities_csv w1 = imported_entities_csv w @ ledger_rows [cy]" by blast
  from Cons.prems(2,3) c have "list_all (\<lambda>x. type x \<noteq> ''story'') items" "list_all has_ledger_row rest"
    by simp_all
  from Cons.IH [OF r this] obtain es where es: "imported_entities rest = Inr es"
    "length es = length rest"
    "imported_entities_csv wa = imported_entities_csv w1 @ ledger_rows es" by blast
  from Cons.prems(3) c cy(1) have "ledger_rows [cy] \<noteq> []" by (simp add: has_ledger_row_def)
  from ledger_rows_append_wf [OF this, of es] cy es c show ?case
    by (simp add: imported_entities_def item_index_def)
qed

lemma sc_creator_labels_ledger:
  assumes "sc_creator env items w = (Inr created, wa)"
    and "list_all (\<lambda>x. type x = ''label'') items"
    and "list_all has_ledger_row created"
  shows "\<exists>es. imported_entities created = Inr es \<and> length es = length created \<and>
           imported_entities_csv wa = imported_entities_csv w @ ledger_rows es"
proof -
  from assms(2) have ns: "list_all (\<lambda>x. type x \<noteq> ''story'') items"
    by (induction items) auto
  with assms(1) have "create_non_stories env items w = (Inr created, wa)"
    by (auto simp: sc_creator_def story_batches_no_stories prog_Inr)
  from create_non_stories_ledger [OF this ns assms(3)] show ?thesis .
qed

lemma commit_labels_world:
  assumes "emitter (labels self) w = (Inr labels1, wa)"
    and "imported_entities labels1 = Inr es"
    and "commit_labels now emitter (self, wr, cr) w = (r, w1)"
  shows "w1 = (if is_dry_run self then wa else write_to_imported_entities_csv es ModeW wa)"
  using assms
  by (auto simp: commit_labels_def bind_w_def lift_w_def effect_w_def pure_w_def
           split: sum.splits prod.splits if_splits)

text \<open>
  Claim C2. With the live emitter every phase of \<^verbatim>\<open>commit\<close> after the labels (the epics, the
  iterations, one story batch, any sequence of story batches) only appends to the Ledger:
  the Ledger it leaves begins with the Ledger it found, whether the phase returns or
  raises. So when the label phase has returned, the Ledger at the end of \<^verbatim>\<open>commit\<close> begins
  with the Ledger the label phase left. The label phase itself rewrites the Ledger (mode
  \<^verbatim>\<open>'w'\<close>) after the emitter has appended the created labels to it: when the label bucket
  holds labels only and every created label has a Ledger row, every row the emitter appended
  is in the Ledger the label phase leaves.
\<close>

theorem commit_ledger_append_only:
  fixes env :: "'b env" and w :: "'b world"
  shows
    "prefix (imported_entities_csv w)
       (imported_entities_csv (snd (commit_epics (sc_creator env) st w))) \<and>
     prefix (imported_entities_csv w)
       (imported_entities_csv (snd (commit_iterations (sc_creator env) iteration_order st w))) \<and>
     prefix (imported_entities_csv w)
       (imported_entities_csv (snd (commit_story_batch env (sc_creator env) st batch w))) \<and>
     prefix (imported_entities_csv w)
       (imported_entities_csv (snd (commit_story_batches env (sc_creator env) st batches w))) \<and>
     (\<forall>st1 w1. commit_labels now (sc_creator env) (self, {}, []) w = (Inr st1, w1) \<longrightarrow>
        prefix (imported_entities_csv w1)
          (imported_entities_csv (snd (commit now env (sc_creator env) iteration_order self w)))) \<and>
     (\<forall>labels1 wa r w1.
        list_all (\<lambda>x. type x = ''label'') (labels self) \<longrightarrow>
        sc_creator env (labels self) w = (Inr labels1, wa) \<longrightarrow>
        list_all has_ledger_row labels1 \<longrightarrow>
        commit_labels now (sc_creator env) (self, {}, []) w = (r, w1) \<longrightarrow>
        (\<exists>rows. imported_entities_csv wa = imported_entities_csv w @ rows \<and>
                set rows \<subseteq> set (imported_entities_csv w1)))"
proof -
  have em: "\<And>items. appends (sc_creator env items)" by (rule sc_creator_appends)
  have 1: "prefix (imported_entities_csv w)
       (imported_entities_csv (snd (commit_epics (sc_creator env) st w)))"
    by (rule appendsD [OF commit_epics_appends [OF em]])
  have 2: "prefix (imported_entities_csv w)
       (imported_entities_csv (snd (commit_iterations (sc_creator env) iteration_order st w)))"
    by (rule appendsD [OF commit_iterations_appends [OF em]])
  have 3: "prefix (imported_entities_csv w)
       (imported_entities_csv (snd (commit_story_batch env (sc_creator env) st batch w)))"
    by (rule appendsD [OF commit_story_batch_appends [OF em]])
  have 4: "prefix (imported_entities_csv w)
       (imported_entities_csv (snd (commit_story_batches env (sc_creator env) st batches w)))"
    by (rule appendsD [OF commit_story_batches_appends [OF em]])
  have 5: "prefix (imported_entities_csv w1)
          (imported_entities_csv (snd (commit now env (sc_creator env) iteration_order self w)))"
    if l: "commit_labels now (sc_creator env) (self, {}, []) w = (Inr st1, w1)" for st1 w1
  proof -
    let ?rest = "bind_w (commit_epics (sc_creator env) st1) (\<lambda>st2.
       bind_w (commit_iterations (sc_creator env) iteration_order st2) (\<lambda>st3.
       bind_w (commit_story_batches env (sc_creator env) st3 (batches_of BATCH_SIZE (stories (fst st3))))
         (\<lambda>(st4, submitted).
           pure_w \<lparr>created_entities = snd (snd st4),
                   labels_after = labels (fst st4),
                   epics_after = epics (fst st4),
                   iterations_after = iterations (fst st4),
                   submitted_batches = submitted\<rparr>)))"
    have "appends ?rest"
      by (intro appends_bind commit_epics_appends commit_iterations_appends
            commit_story_batches_appends em appends_case_prod appends_pure)
    from appendsD [OF this, of w1] l show ?thesis
      by (simp add: commit_def bind_w_def)
  qed
  have 6: "\<exists>rows. imported_entities_csv wa = imported_entities_csv w @ rows \<and>
                set rows \<subseteq> set (imported_entities_csv w1)"
    if t: "list_all (\<lambda>x. type x = ''label'') (labels self)"
      and e: "sc_creator env (labels self) w = (Inr labels1, wa)"
      and wf: "list_all has_ledger_row labels1"
      and l: "commit_labels now (sc_creator env) (self, {}, []) w = (r, w1)" for labels1 wa r w1
  proof -
    from sc_creator_labels_ledger [OF e t wf] obtain es where
      es: "imported_entities labels1 = Inr es"
        "imported_entities_csv wa = imported_entities_csv w @ ledger_rows es" by blast
    from commit_labels_world [OF e es(1) l]
    have "w1 = (if is_dry_run self then wa else write_to_imported_entities_csv es ModeW wa)" .
    then have "set (ledger_rows es) \<subseteq> set (imported_entities_csv w1)"
      using es(2) by (auto simp: write_to_imported_entities_csv_def)
    with es(2) show ?thesis by blast
  qed
  from 1 2 3 4 5 6 show ?thesis by blast
qed

lemma live_label_phase_returns:
  "(case fst (commit_labels ''T'' (sc_creator numbering_tracker) (live_collector, {}, []) fresh_world) of
      Inl e \<Rightarrow> False | Inr st \<Rightarrow> True)"
  by code_simp

lemma live_labels_created:
  "(case fst (sc_creator numbering_tracker (labels live_collector) fresh_world) of
      Inl e \<Rightarrow> False | Inr created \<Rightarrow> list_all has_ledger_row created)"
  by code_simp

lemma live_labels_bucket: "list_all (\<lambda>x. type x = ''label'') (labels live_collector)"
  by code_simp

theorem commit_ledger_append_only_witness:
  "prefix
     (imported_entities_csv (snd (commit_labels ''T'' (sc_creator numbering_tracker)
        (live_collector, {}, []) fresh_world)))
     (imported_entities_csv (snd (commit ''T'' numbering_tracker (sc_creator numbering_tracker)
        [KStr (iteration_key ''42'' ''2024-01-01'' ''2024-01-14'')] live_collector fresh_world))) \<and>
   (\<exists>rows. imported_entities_csv (snd (sc_creator numbering_tracker (labels live_collector) fresh_world))
             = imported_entities_csv fresh_world @ rows \<and>
           set rows \<subseteq> set (imported_entities_csv (snd (commit_labels ''T'' (sc_creator numbering_tracker)
                                  (live_collector, {}, []) fresh_world)))) \<and>
   imported_entities_csv (snd (sc_creator numbering_tracker (labels live_collector) fresh_world))
     = [Row (VStr OtherObj ''label'') (VInt 0)] \<and>
   imported_entities_csv (snd (commit_labels ''T'' (sc_creator numbering_tracker)
        (live_collector, {}, []) fresh_world))
     = [Header, Row (VStr OtherObj ''label'') (VInt 0)] \<and>
   imported_entities_csv (snd (commit ''T'' numbering_tracker (sc_creator numbering_tracker)
        [KStr (iteration_key ''42'' ''2024-01-01'' ''2024-01-14'')] live_collector fresh_world))
     = [Header, Row (VStr OtherObj ''label'') (VInt 0),
        Row (VStr OtherObj ''epic'') (VInt 1), Row (VStr OtherObj ''epic'') (VInt 1),
        Row (VStr OtherObj ''iteration'') (VInt 2), Row (VStr OtherObj ''iteration'') (VInt 2),
        Row (VStr OtherObj ''story'') (VInt 3), Row (VStr OtherObj ''story'') (VInt 4),
        Row (VStr OtherObj ''story'') (VInt 3), Row (VStr OtherObj ''story'') (VInt 4)]"
proof -
  let ?em = "sc_creator numbering_tracker"
  let ?order = "[KStr (iteration_key ''42'' ''2024-01-01'' ''2024-01-14'')]"
  let ?l = "commit_labels ''T'' ?em (live_collector, {}, []) fresh_world"
  let ?e = "?em (labels live_collector) fresh_world"
  from live_label_phase_returns obtain st1 where "fst ?l = Inr st1"
    by (cases "fst ?l") auto
  then have l: "?l = (Inr st1, snd ?l)" by (simp add: prod_eq_iff)
  from live_labels_created obtain labels1 where "fst ?e = Inr labels1"
    and wf: "list_all has_ledger_row labels1"
    by (cases "fst ?e") auto
  then have e: "?e = (Inr labels1, snd ?e)" by (simp add: prod_eq_iff)
  note th = commit_ledger_append_only [where env = numbering_tracker and w = fresh_world
      and now = "''T''" and self = live_collector and iteration_order = ?order]
  from th l have 1: "prefix (imported_entities_csv (snd ?l))
     (imported_entities_csv (snd (commit ''T'' numbering_tracker ?em ?order live_collector fresh_world)))"
    by blast
  from th live_labels_bucket e wf l
  have 2: "\<exists>rows. imported_entities_csv (snd ?e) = imported_entities_csv fresh_world @ rows \<and>
           set rows \<subseteq> set (imported_entities_csv (snd ?l))"
    by blast
  have 3: "imported_entities_csv (snd ?e) = [Row (VStr OtherObj ''label'') (VInt 0)]"
    by code_simp
  have 4: "imported_entities_csv (snd ?l) = [Header, Row (VStr OtherObj ''label'') (VInt 0)]"
    by code_simp
  have 5: "imported_entities_csv (snd (commit ''T'' numbering_tracker ?em ?order live_collector fresh_world))
     = [Header, Row (VStr OtherObj ''label'') (VInt 0),
        Row (VStr OtherObj ''epic'') (VInt 1), Row (VStr OtherObj ''epic'') (VInt 1),
        Row (VStr OtherObj ''iteration'') (VInt 2), Row (VStr OtherObj ''iteration'') (VInt 2),
        Row (VStr OtherObj ''story'') (VInt 3), Row (VStr OtherObj ''story'') (VInt 4),
        Row (VStr OtherObj ''story'') (VInt 3), Row (VStr OtherObj ''story'') (VInt 4)]"
    by code_simp
  from 1 2 3 4 5 show ?thesis by (intro conjI)
qed

section \<open>What is sent to the tracker\<close>

section \<open>Computations that make no call\<close>

lemma keeps_callsI: "(\<And>w. snd (api (snd (m w))) = snd (api w)) \<Longrightarrow> keeps_calls m"
  by (simp add: keeps_calls_def)

lemma keeps_callsD: "keeps_calls m \<Longrightarrow> snd (api (snd (m w))) = snd (api w)"
  by (simp add: keeps_calls_def)

lemma keeps_calls_pure: "keeps_calls (pure_w x)"
  by (simp add: keeps_calls_def pure_w_def)

lemma keeps_calls_lift: "keeps_calls (lift_w m)"
  by (simp add: keeps_calls_def lift_w_def)

lemma keeps_calls_bind:
  fixes m :: "('b \<times> call list, 'a) prog"
  assumes "keeps_calls m" and "\<And>x. keeps_calls (f x)"
  shows "keeps_calls (bind_w m f)"
proof (rule keeps_callsI)
  fix w :: "('b \<times> call list) world"
  obtain r w1 where m: "m w = (r, w1)" by (cases "m w") auto
  from keeps_callsD [OF assms(1), where w = w] m
  have 1: "snd (api w1) = snd (api w)" by simp
  show "snd (api (snd (bind_w m f w))) = snd (api w)"
  proof (cases r)
    case (Inl e)
    with m 1 show ?thesis by (simp add: bind_w_def)
  next
    case (Inr x)
    from keeps_callsD [OF assms(2) [of x], where w = w1] 1 m Inr show ?thesis
      by (simp add: bind_w_def)
  qed
qed

lemma keeps_calls_effect:
  "(\<And>w. api (g w) = api w) \<Longrightarrow> keeps_calls (effect_w g)"
  by (simp add: keeps_calls_def effect_w_def)

lemma keeps_calls_if: "keeps_calls m \<Longrightarrow> keeps_calls n \<Longrightarrow> keeps_calls (if b then m else n)"
  by simp

lemma keeps_calls_case_prod: "(\<And>a b. keeps_calls (f a b)) \<Longrightarrow> keeps_calls (case p of (a, b) \<Rightarrow> f a b)"
  by (cases p) simp

lemmas keeps_calls_intros = keeps_calls_bind keeps_calls_pure keeps_calls_lift keeps_calls_if
  keeps_calls_case_prod

lemma write_ledger_api [simp]: "api (write_to_imported_entities_csv es mode w) = api w"
  by (simp add: write_to_imported_entities_csv_def)

lemma write_failed_stories_api [simp]: "api (write_failed_stories fs w) = api w"
  by (simp add: write_failed_stories_def)

lemma write_failed_files_csv_keeps: "keeps_calls (write_failed_files_csv fs)"
  by (rule keeps_callsI) (simp add: write_failed_files_csv_def split: prod.splits)

lemma upload_files_keeps:
  fixes env :: "'b env"
  shows "keeps_calls (upload_files (recording env) dry paths)"
  by (rule keeps_callsI)
     (auto simp: upload_files_def recording_def split: prod.splits sum.splits)

lemma process_comment_files_keeps: "keeps_calls (process_comment_files (recording env) dry fs comment)"
  unfolding process_comment_files_def Let_def
  by (cases comment) (auto intro!: keeps_calls_intros upload_files_keeps)

lemma story_comments_loop_keeps: "keeps_calls (story_comments_loop (recording env) dry fs cs)"
  by (induction cs) (auto intro!: keeps_calls_intros process_comment_files_keeps)

lemma process_story_files_keeps: "keeps_calls (process_story_files (recording env) dry story)"
  unfolding process_story_files_def Let_def
  by (auto intro!: keeps_calls_intros story_comments_loop_keeps)

lemma process_files_loop_keeps: "keeps_calls (process_files_loop (recording env) dry batch)"
  by (induction batch) (auto intro!: keeps_calls_intros process_story_files_keeps)

lemma process_files_for_stories_keeps:
  "keeps_calls (process_files_for_stories (recording env) dry batch)"
  unfolding process_files_for_stories_def
  by (auto intro!: keeps_calls_intros process_files_loop_keeps write_failed_files_csv_keeps
        keeps_calls_effect)

section \<open>The attributes are kept on the way to the tracker\<close>

lemma same_keys_refl [simp]: "same_keys s s"
  by (simp add: same_keys_def)

lemma same_keys_comments:
  assumes "map_of (entity s) ''comments'' \<noteq> None"
  shows "same_keys s (s\<lparr>entity := AList.update ''comments'' v (entity s)\<rparr>)"
proof -
  from assms have "''comments'' \<in> fst ` set (entity s)"
    by (auto simp: map_of_eq_None_iff)
  then show ?thesis by (auto simp: same_keys_def keys_update)
qed

lemma process_story_files_keys:
  assumes "process_story_files env dry story w = (Inr (s1, failed), w1)"
  shows "same_keys story s1"
proof -
  from assms have shape: "type s1 = type story \<and>
      (entity s1 = entity story \<or>
       (map_of (entity story) ''comments'' \<noteq> None \<and>
        (\<exists>x. entity s1 = AList.update ''comments'' x (entity story))))"
    by (auto simp: process_story_files_def prog_Inr Let_def dict_get_default_def
          split: if_splits option.splits)
  then show ?thesis
  proof (elim conjE disjE exE)
    assume "type s1 = type story" "entity s1 = entity story"
    then show ?thesis by (simp add: same_keys_def)
  next
    fix x
    assume t: "type s1 = type story" and c: "map_of (entity story) ''comments'' \<noteq> None"
      and e: "entity s1 = AList.update ''comments'' x (entity story)"
    from same_keys_comments [OF c, of x] t e show ?thesis by (simp add: same_keys_def)
  qed
qed

lemma process_files_loop_keys:
  assumes "process_files_loop env dry batch w = (Inr (successful, failed, failed_files), w1)"
  shows "\<forall>s1 \<in> set successful. \<exists>s \<in> set batch. same_keys s s1"
  using assms
proof (induction batch arbitrary: w successful failed failed_files)
  case Nil
  then show ?case by (simp add: pure_w_Inr)
next
  case (Cons story rest)
  from Cons.prems obtain s1 ff wa succ fl fs where
    1: "process_story_files env dry story w = (Inr (s1, ff), wa)" and
    2: "process_files_loop env dry rest wa = (Inr (succ, fl, fs), w1)" and
    3: "successful = (if ff \<noteq> [] then succ else s1 # succ)"
    by (auto simp: prog_Inr split: if_splits)
  from process_story_files_keys [OF 1] Cons.IH [OF 2] 3 show ?case by auto
qed

lemma process_files_for_stories_keys:
  assumes "process_files_for_stories env dry batch w = (Inr successful, w1)"
  shows "\<forall>s1 \<in> set successful. \<exists>s \<in> set batch. same_keys s s1"
proof -
  from assms obtain failed failed_files wa where
    "process_files_loop env dry batch w = (Inr (successful, failed, failed_files), wa)"
    by (auto simp: process_files_for_stories_def prog_Inr split: if_splits)
  then show ?thesis by (rule process_files_loop_keys)
qed

lemma clean_story_keys:
  assumes "clean_story s = Inr s1"
  shows "same_keys s s1"
proof (cases "map_of (entity s) ''comments''")
  case None
  with assms show ?thesis by (simp add: clean_story_def)
next
  case (Some cs)
  then have c: "map_of (entity s) ''comments'' \<noteq> None" by simp
  from assms Some have "s1 = s \<or> (\<exists>x. s1 = s\<lparr>entity := AList.update ''comments'' x (entity s)\<rparr>)"
    by (auto simp: clean_story_def and_then_eq_Inr split: if_splits)
  with same_keys_comments [OF c] show ?thesis by auto
qed

lemma map_clean_story_keys:
  assumes "map_err clean_story batch = Inr cleaned"
  shows "\<forall>s1 \<in> set cleaned. \<exists>s \<in> set batch. same_keys s s1"
proof
  fix s1 assume "s1 \<in> set cleaned"
  with map_err_list_all2 [OF assms] obtain s where "s \<in> set batch" "clean_story s = Inr s1"
    by (blast dest: list_all2_rightD)
  with clean_story_keys show "\<exists>s \<in> set batch. same_keys s s1" by blast
qed

lemma submittable_same_keys: "submittable s \<Longrightarrow> same_keys s s1 \<Longrightarrow> submittable s1"
  by (simp add: submittable_def same_keys_def)

section \<open>The calls of the live emitter\<close>

lemma maintainsI:
  "(\<And>w. I w \<Longrightarrow> I (snd (m w))) \<Longrightarrow> (\<And>w x. I w \<Longrightarrow> fst (m w) = Inr x \<Longrightarrow> Q x) \<Longrightarrow> maintains I m Q"
  by (simp add: maintains_def)

lemma maintains_inv: "maintains I m Q \<Longrightarrow> I w \<Longrightarrow> I (snd (m w))"
  by (simp add: maintains_def)

lemma maintains_result: "maintains I m Q \<Longrightarrow> I w \<Longrightarrow> m w = (Inr x, w1) \<Longrightarrow> Q x"
  by (simp add: maintains_def)

lemma maintains_pure: "Q x \<Longrightarrow> maintains I (pure_w x) Q"
  by (simp add: maintains_def pure_w_def)

lemma maintains_lift: "(\<And>x. m = Inr x \<Longrightarrow> Q x) \<Longrightarrow> maintains I (lift_w m) Q"
  by (simp add: maintains_def lift_w_def)

lemma maintains_bind:
  assumes "maintains I m Q" and "\<And>x. Q x \<Longrightarrow> maintains I (f x) R"
  shows "maintains I (bind_w m f) R"
proof (rule maintainsI)
  fix w assume i: "I w"
  obtain r w1 where m: "m w = (r, w1)" by (cases "m w") auto
  from maintains_inv [OF assms(1) i] m have i1: "I w1" by simp
  show "I (snd (bind_w m f w))"
  proof (cases r)
    case (Inl e)
    with m i1 show ?thesis by (simp add: bind_w_def)
  next
    case (Inr x)
    with m have "Q x" using maintains_result [OF assms(1) i] by simp
    from maintains_inv [OF assms(2) [OF this] i1] m Inr show ?thesis by (simp add: bind_w_def)
  qed
  fix y assume y: "fst (bind_w m f w) = Inr y"
  show "R y"
  proof (cases r)
    case (Inl e)
    with m y show ?thesis by (simp add: bind_w_def)
  next
    case (Inr x)
    with m have q: "Q x" using maintains_result [OF assms(1) i] by simp
    from y m Inr have "fst (f x w1) = Inr y" by (simp add: bind_w_def)
    then have "f x w1 = (Inr y, snd (f x w1))" by (simp add: prod_eq_iff)
    from maintains_result [OF assms(2) [OF q] i1 this] show ?thesis .
  qed
qed

lemma maintains_weaken: "maintains I m Q \<Longrightarrow> (\<And>x. Q x \<Longrightarrow> R x) \<Longrightarrow> maintains I m R"
  by (simp add: maintains_def)

lemma maintains_keeps:
  assumes "keeps_calls m" and "\<And>w x w1. m w = (Inr x, w1) \<Longrightarrow> Q x"
  shows "maintains calls_ok m Q"
proof (rule maintainsI)
  fix w :: "('a \<times> call list) world" assume "calls_ok w"
  with keeps_callsD [OF assms(1), of w] show "calls_ok (snd (m w))" by (simp add: calls_ok_def)
  fix x assume "fst (m w) = Inr x"
  then have "m w = (Inr x, snd (m w))" by (simp add: prod_eq_iff)
  then show "Q x" by (rule assms(2))
qed

lemma create_item_calls:
  fixes env :: "'b env"
  assumes "submittable x"
  shows "maintains calls_ok (create_item (recording env) x) (\<lambda>y. True)"
proof (rule maintainsI)
  fix w :: "('b \<times> call list) world" assume "calls_ok w"
  with assms show "calls_ok (snd (create_item (recording env) x w))"
    by (auto simp: create_item_def recording_def calls_ok_def submittable_def allowed_payload_def
          split: prod.splits sum.splits)
qed simp

lemma create_non_stories_calls:
  assumes "list_all submittable items"
  shows "maintains calls_ok (create_non_stories (recording env) items) (\<lambda>y. True)"
  using assms
proof (induction items)
  case Nil
  then show ?case by (simp add: maintains_pure)
next
  case (Cons x items)
  then show ?case
    by (auto intro!: maintains_bind [where Q = "\<lambda>y. True"] create_item_calls maintains_pure)
qed

lemma bulk_call_calls:
  fixes env :: "'b env"
  assumes "list_all (\<lambda>s. fst ` set (entity s) \<subseteq> allowed_keys ''story'') processed"
  shows "maintains calls_ok
     (\<lambda>w. case sc_post (recording env) ''/stories/bulk''
                    (VDict [(''stories'', VList (map (\<lambda>s. VDict (entity s)) processed))]) (api w) of
              (Inl e, b) \<Rightarrow> (Inr [], write_failed_stories processed (w\<lparr>api := b\<rparr>))
            | (Inr answer, b) \<Rightarrow>
                (case py_iter answer of
                   Inl e \<Rightarrow> (Inr [], write_failed_stories processed (w\<lparr>api := b\<rparr>))
                 | Inr created \<Rightarrow>
                     (Inr (map (\<lambda>(c, story). story\<lparr>imported_entity := Some c\<rparr>)
                             (zip created processed)),
                      write_to_imported_entities_csv created ModeA (w\<lparr>api := b\<rparr>))))
     (\<lambda>y. True)"
proof (rule maintainsI)
  fix w :: "('b \<times> call list) world" assume ok: "calls_ok w"
  from assms have "list_all (allowed_payload ''story'') (map (\<lambda>s. VDict (entity s)) processed)"
    by (induction processed) (auto simp: allowed_payload_def)
  then have "allowed_call (''/stories/bulk'',
      VDict [(''stories'', VList (map (\<lambda>s. VDict (entity s)) processed))])"
    by simp
  with ok show "calls_ok (snd (case sc_post (recording env) ''/stories/bulk''
                    (VDict [(''stories'', VList (map (\<lambda>s. VDict (entity s)) processed))]) (api w) of
              (Inl e, b) \<Rightarrow> (Inr [], write_failed_stories processed (w\<lparr>api := b\<rparr>))
            | (Inr answer, b) \<Rightarrow>
                (case py_iter answer of
                   Inl e \<Rightarrow> (Inr [], write_failed_stories processed (w\<lparr>api := b\<rparr>))
                 | Inr created \<Rightarrow>
                     (Inr (map (\<lambda>(c, story). story\<lparr>imported_entity := Some c\<rparr>)
                             (zip created processed)),
                      write_to_imported_entities_csv created ModeA (w\<lparr>api := b\<rparr>)))))"
    by (auto simp: recording_def calls_ok_def simp del: allowed_call.simps
          split: prod.splits sum.splits)
qed simp

lemma story_ok_same_keys: "story_ok s \<Longrightarrow> same_keys s s1 \<Longrightarrow> story_ok s1"
  by (simp add: story_ok_def same_keys_def)

lemma process_batch_calls:
  fixes env :: "'b env"
  assumes "list_all story_ok batch"
  shows "maintains calls_ok (process_batch (recording env) batch) (\<lambda>y. True)"
proof (cases "batch = []")
  case True
  then show ?thesis by (simp add: process_batch_def maintains_pure)
next
  case False
  have 1: "maintains calls_ok (process_files_for_stories (recording env) False batch)
             (list_all story_ok)"
  proof (rule maintains_keeps [OF process_files_for_stories_keeps])
    fix w :: "('b \<times> call list) world" and x w1
    assume "process_files_for_stories (recording env) False batch w = (Inr x, w1)"
    from process_files_for_stories_keys [OF this] assms show "list_all story_ok x"
      by (auto simp: list_all_iff intro: story_ok_same_keys)
  qed
  have 2: "maintains calls_ok (lift_w (map_err clean_story processed0)) (list_all story_ok)"
    if "list_all story_ok processed0" for processed0
  proof (rule maintains_lift)
    fix x assume "map_err clean_story processed0 = Inr x"
    from map_clean_story_keys [OF this] that show "list_all story_ok x"
      by (auto simp: list_all_iff intro: story_ok_same_keys)
  qed
  from False show ?thesis
    unfolding process_batch_def
    by (simp only: if_False)
       (intro maintains_bind [OF 1] maintains_bind [OF 2] bulk_call_calls,
        simp_all add: list_all_iff story_ok_def)
qed

lemma story_batches_calls:
  fixes env :: "'b env"
  assumes "list_all (\<lambda>x. type x = ''story'' \<longrightarrow> story_ok x) items" and "list_all story_ok acc"
  shows "maintains calls_ok (story_batches (recording env) items acc) (\<lambda>y. True)"
  using assms
proof (induction items arbitrary: acc)
  case Nil
  then show ?case by (simp add: process_batch_calls)
next
  case (Cons x items)
  show ?case
  proof (cases "type x = ''story''")
    case True
    with Cons.prems have a: "list_all story_ok (acc @ [x])"
      and r: "list_all (\<lambda>x. type x = ''story'' \<longrightarrow> story_ok x) items" by simp_all
    have n: "list_all story_ok ([] :: item list)" by simp
    show ?thesis
    proof (cases "length (acc @ [x]) \<ge> BATCH_SIZE")
      case True
      have "maintains calls_ok
          (bind_w (process_batch (recording env) (acc @ [x])) (\<lambda>created.
           bind_w (story_batches (recording env) items []) (\<lambda>more. pure_w (created @ more))))
          (\<lambda>y. True)"
        by (intro maintains_bind [OF process_batch_calls [OF a]]
              maintains_bind [OF Cons.IH [OF r n]] maintains_pure) simp
      with True \<open>type x = ''story''\<close> show ?thesis by simp
    next
      case False
      with Cons.IH [OF r a] \<open>type x = ''story''\<close> show ?thesis by simp
    qed
  next
    case False
    with Cons.prems have "list_all (\<lambda>x. type x = ''story'' \<longrightarrow> story_ok x) items" by simp
    from Cons.IH [OF this Cons.prems(2)] False show ?thesis by simp
  qed
qed

lemma sc_creator_calls:
  fixes env :: "'b env"
  assumes "list_all submittable items"
  shows "maintains calls_ok (sc_creator (recording env) items) (\<lambda>y. True)"
proof -
  from assms have s: "list_all (\<lambda>x. type x = ''story'' \<longrightarrow> story_ok x) items"
    by (auto simp: list_all_iff submittable_def story_ok_def)
  have n: "list_all story_ok ([] :: item list)" by simp
  show ?thesis
    unfolding sc_creator_def
    by (intro maintains_bind [OF create_non_stories_calls [OF assms]]
          maintains_bind [OF story_batches_calls [OF s n]] maintains_pure) simp
qed

lemma maintains_bind_True:
  "maintains I m (\<lambda>x. True) \<Longrightarrow> (\<And>x. maintains I (f x) (\<lambda>y. True)) \<Longrightarrow>
   maintains I (bind_w m f) (\<lambda>y. True)"
  by (rule maintains_bind)

lemma maintains_keeps_True: "keeps_calls m \<Longrightarrow> maintains calls_ok m (\<lambda>x. True)"
  by (erule maintains_keeps) simp

lemma maintains_post:
  assumes "maintains I m Q" and "\<And>w x w1. m w = (Inr x, w1) \<Longrightarrow> R x"
  shows "maintains I m R"
proof (rule maintainsI)
  fix w assume "I w"
  with assms(1) show "I (snd (m w))" by (rule maintains_inv)
  fix x assume "fst (m w) = Inr x"
  then have "m w = (Inr x, snd (m w))" by (simp add: prod_eq_iff)
  then show "R x" by (rule assms(2))
qed

lemma maintains_if: "maintains I m Q \<Longrightarrow> maintains I n Q \<Longrightarrow> maintains I (if b then m else n) Q"
  by simp

lemma maintains_case_prod:
  "(\<And>a b. maintains I (f a b) Q) \<Longrightarrow> maintains I (case p of (a, b) \<Rightarrow> f a b) Q"
  by (cases p) simp

lemma record_created_keeps: "keeps_calls (record_created t dry items written_entities)"
  unfolding record_created_def
  by (auto intro!: keeps_calls_intros keeps_calls_effect)

lemmas keeps_True = keeps_calls_lift [THEN maintains_keeps_True]
  keeps_calls_pure [THEN maintains_keeps_True]
  record_created_keeps [THEN maintains_keeps_True]

lemma effect_ledger_True:
  "maintains calls_ok (effect_w (write_to_imported_entities_csv es mode)) (\<lambda>x. True)"
  by (rule maintains_keeps_True) (simp add: keeps_calls_effect)

lemma commit_labels_calls:
  assumes em: "\<And>items. list_all submittable items \<Longrightarrow> maintains calls_ok (emitter items) (\<lambda>y. True)"
    and "list_all submittable (labels self)"
  shows "maintains calls_ok (commit_labels now emitter (self, wr, cr))
           (\<lambda>st1. stories (fst st1) = stories self \<and> epics (fst st1) = epics self)"
proof (rule maintains_post)
  show "maintains calls_ok (commit_labels now emitter (self, wr, cr)) (\<lambda>y. True)"
    unfolding commit_labels_def
    by (auto intro!: maintains_bind_True em assms(2) keeps_True effect_ledger_True maintains_if)
next
  fix w :: "('a \<times> call list) world" and x w1
  assume "commit_labels now emitter (self, wr, cr) w = (Inr x, w1)"
  from commit_labels_Inr [OF this] show "stories (fst x) = stories self \<and> epics (fst x) = epics self"
    by auto
qed

lemma commit_epics_calls:
  assumes em: "\<And>items. list_all submittable items \<Longrightarrow> maintains calls_ok (emitter items) (\<lambda>y. True)"
    and "list_all submittable (epics (fst st))"
  shows "maintains calls_ok (commit_epics emitter st) (\<lambda>st1. stories (fst st1) = stories (fst st))"
proof (rule maintains_post)
  show "maintains calls_ok (commit_epics emitter st) (\<lambda>y. True)"
    unfolding commit_epics_def using assms(2)
    by (cases st) (auto intro!: maintains_bind_True em keeps_True)
next
  fix w :: "('a \<times> call list) world" and x w1
  assume "commit_epics emitter st w = (Inr x, w1)"
  from commit_epics_Inr [OF this] show "stories (fst x) = stories (fst st)" by auto
qed

lemma iteration_requests_submittable:
  assumes "map_err iteration_entity iteration_order = Inr reqs"
  shows "list_all submittable reqs"
  unfolding list_all_iff
proof
  fix x assume "x \<in> set reqs"
  with map_err_list_all2 [OF assms] obtain k where "iteration_entity k = Inr x"
    by (blast dest: list_all2_rightD)
  then have "type x = ''iteration''" by (rule iteration_entity_Inr)
  then show "submittable x" by (simp add: submittable_def)
qed

lemma commit_iterations_calls:
  assumes em: "\<And>items. list_all submittable items \<Longrightarrow> maintains calls_ok (emitter items) (\<lambda>y. True)"
  shows "maintains calls_ok (commit_iterations emitter iteration_order st)
           (\<lambda>st1. stories (fst st1) = stories (fst st))"
proof (rule maintains_post)
  have "maintains calls_ok (lift_w (map_err iteration_entity iteration_order)) (list_all submittable)"
    by (rule maintains_lift) (rule iteration_requests_submittable)
  then have "maintains calls_ok
      (bind_w (lift_w (map_err iteration_entity iteration_order)) (\<lambda>iteration_entities.
        bind_w (emitter iteration_entities) (\<lambda>iterations1.
        bind_w (record_created ''iteration'' (is_dry_run self) iterations1 wr) (\<lambda>written1.
        bind_w (lift_w (imported_entities iterations1)) (\<lambda>created.
          pure_w (self\<lparr>iterations := iterations1\<rparr>, written1, cr @ created))))))
      (\<lambda>y. True)" for self wr cr
    by (rule maintains_bind) (auto intro!: maintains_bind_True em keeps_True)
  then show "maintains calls_ok (commit_iterations emitter iteration_order st) (\<lambda>y. True)"
    unfolding commit_iterations_def by (cases st) simp
next
  fix w :: "('a \<times> call list) world" and x w1
  assume "commit_iterations emitter iteration_order st w = (Inr x, w1)"
  from commit_iterations_Inr [OF this] show "stories (fst x) = stories (fst st)" by auto
qed

lemma process_story_batch_calls:
  fixes env :: "'b env"
  assumes em: "\<And>items. list_all submittable items \<Longrightarrow> maintains calls_ok (emitter items) (\<lambda>y. True)"
    and b: "list_all submittable batch"
  shows "maintains calls_ok (process_story_batch (recording env) emitter dry batch) (\<lambda>y. True)"
proof -
  have 1: "maintains calls_ok (process_files_for_stories (recording env) dry batch)
             (list_all submittable)"
  proof (rule maintains_keeps [OF process_files_for_stories_keeps])
    fix w :: "('b \<times> call list) world" and x w1
    assume "process_files_for_stories (recording env) dry batch w = (Inr x, w1)"
    from process_files_for_stories_keys [OF this] b show "list_all submittable x"
      by (auto simp: list_all_iff intro: submittable_same_keys)
  qed
  have 2: "maintains calls_ok
      (\<lambda>w. case emitter processed w of
              (Inr created_stories, w1) \<Rightarrow> (Inr created_stories, w1)
            | (Inl e, w1) \<Rightarrow> (Inr [], write_failed_stories processed w1))
      (\<lambda>y. True)" if p: "list_all submittable processed" for processed
  proof (rule maintainsI)
    fix w :: "('b \<times> call list) world" assume "calls_ok w"
    from maintains_inv [OF em [OF p] this]
    show "calls_ok (snd (case emitter processed w of
              (Inr created_stories, w1) \<Rightarrow> (Inr created_stories, w1)
            | (Inl e, w1) \<Rightarrow> (Inr [], write_failed_stories processed w1)))"
      by (auto simp: calls_ok_def split: prod.splits sum.splits)
  qed simp
  show ?thesis
    unfolding process_story_batch_def
    by (rule maintains_bind [OF 1]) (rule 2)
qed

lemma subset_chain:
  "K1 \<subseteq> insert e K \<Longrightarrow> K2 \<subseteq> insert i K1 \<Longrightarrow> K \<subseteq> S \<Longrightarrow> i \<in> S \<Longrightarrow> K2 \<subseteq> S \<union> {e}"
  by blast

lemma linked_submittable:
  assumes "built_story s" and "assign_story_to_epic m s = Inr s1"
    and "assign_story_to_iteration pm s1 = Inr s2"
  shows "submittable s2"
proof -
  from assms(1) have t: "type s = ''story''" and k: "fst ` set (entity s) \<subseteq> set (select_keys ''story'')"
    by (simp_all add: built_story_def)
  have it: "''iteration_id'' \<in> set (select_keys ''story'')" by simp
  from assign_story_to_epic_keys [OF assms(2)] have t1: "type s1 = type s"
    and k1: "fst ` set (entity s1) \<subseteq> insert ''epic_id'' (fst ` set (entity s))"
    by simp_all
  from assign_story_to_iteration_keys [OF assms(3)] have t2: "type s2 = type s1"
    and k2: "fst ` set (entity s2) \<subseteq> insert ''iteration_id'' (fst ` set (entity s1))"
    by simp_all
  from k1 k2 k it have "fst ` set (entity s2) \<subseteq> set (select_keys ''story'') \<union> {''epic_id''}"
    by (rule subset_chain)
  with t t1 t2 show ?thesis by (simp add: submittable_def allowed_keys_def del: select_keys.simps)
qed

lemma linked_batch_submittable:
  assumes "list_all built_story batch"
    and "assign_stories_to_epics batch created_epics = Inr batch1"
    and "assign_stories_to_iterations batch1 created_iterations = Inr batch2"
  shows "list_all submittable batch2"
  unfolding list_all_iff
proof
  from assms(2) obtain m where
    b: "list_all2 (\<lambda>s s'. assign_story_to_epic m s = Inr s') batch batch1"
    by (auto simp: assign_stories_to_epics_def and_then_eq_Inr dest: map_err_list_all2)
  from assms(3) obtain pm where
    c: "list_all2 (\<lambda>s s'. assign_story_to_iteration pm s = Inr s') batch1 batch2"
    by (auto simp: assign_stories_to_iterations_def and_then_eq_Inr dest: map_err_list_all2)
  fix s2 assume "s2 \<in> set batch2"
  with c obtain s1 where s1: "s1 \<in> set batch1" "assign_story_to_iteration pm s1 = Inr s2"
    by (blast dest: list_all2_rightD)
  with b obtain s where s: "s \<in> set batch" "assign_story_to_epic m s = Inr s1"
    by (blast dest: list_all2_rightD)
  from assms(1) s(1) have "built_story s" by (simp add: list_all_iff)
  from linked_submittable [OF this s(2) s1(2)] show "submittable s2" .
qed

lemma commit_story_batch_calls:
  fixes env :: "'b env"
  assumes em: "\<And>items. list_all submittable items \<Longrightarrow> maintains calls_ok (emitter items) (\<lambda>y. True)"
    and b: "list_all built_story batch"
  shows "maintains calls_ok (commit_story_batch (recording env) emitter st batch)
           (\<lambda>r. fst (fst r) = fst st)"
proof (rule maintains_post)
  obtain self wr cr where st: "st = (self, wr, cr)" by (cases st) auto
  have 1: "maintains calls_ok (lift_w (assign_stories_to_epics batch (epics self)))
             (\<lambda>batch1. assign_stories_to_epics batch (epics self) = Inr batch1)"
    by (rule maintains_lift)
  have 2: "maintains calls_ok (lift_w (assign_stories_to_iterations batch1 (iterations self)))
             (list_all submittable)"
    if "assign_stories_to_epics batch (epics self) = Inr batch1" for batch1
    by (rule maintains_lift) (rule linked_batch_submittable [OF b that])
  have 3: "maintains calls_ok
      (bind_w (process_story_batch (recording env) emitter (is_dry_run self) batch2) (\<lambda>created_batch.
          if \<not> is_dry_run self then
            bind_w (lift_w (new_stories_loop created_batch wr)) (\<lambda>(new_stories, written1).
            bind_w (effect_w (write_to_imported_entities_csv new_stories ModeA)) (\<lambda>u.
              pure_w ((self, written1, cr @ new_stories), batch2)))
          else
            bind_w (lift_w (imported_entities created_batch)) (\<lambda>created.
              pure_w ((self, wr, cr @ created), batch2))))
      (\<lambda>y. True)" if "list_all submittable batch2" for batch2
    by (auto intro!: maintains_bind_True process_story_batch_calls em that keeps_True
          effect_ledger_True maintains_case_prod)
  show "maintains calls_ok (commit_story_batch (recording env) emitter st batch) (\<lambda>y. True)"
    unfolding commit_story_batch_def st
    by (simp only: prod.case) (rule maintains_bind [OF 1], rule maintains_bind [OF 2], assumption, rule 3)
next
  fix w :: "('b \<times> call list) world" and x w1
  assume "commit_story_batch (recording env) emitter st batch w = (Inr x, w1)"
  then have "commit_story_batch (recording env) emitter st batch w = (Inr (fst x, snd x), w1)" by simp
  from commit_story_batch_Inr [OF this] show "fst (fst x) = fst st" by simp
qed

lemma commit_story_batches_calls:
  fixes env :: "'b env"
  assumes em: "\<And>items. list_all submittable items \<Longrightarrow> maintains calls_ok (emitter items) (\<lambda>y. True)"
    and b: "list_all (list_all built_story) batches"
  shows "maintains calls_ok (commit_story_batches (recording env) emitter st batches) (\<lambda>y. True)"
  using b
proof (induction batches arbitrary: st)
  case Nil
  then show ?case by (simp add: maintains_pure)
next
  case (Cons batch rest)
  then have 1: "list_all built_story batch" and 2: "list_all (list_all built_story) rest" by simp_all
  show ?case
    unfolding commit_story_batches.simps
    by (rule maintains_bind [OF commit_story_batch_calls [OF em 1]])
       (auto intro!: maintains_bind_True Cons.IH [OF 2] keeps_True maintains_case_prod)
qed

lemma set_batches_of: "0 < n \<Longrightarrow> b \<in> set (batches_of n xs) \<Longrightarrow> set b \<subseteq> set xs"
proof -
  assume "0 < n" "b \<in> set (batches_of n xs)"
  then have "set b \<subseteq> set (concat (batches_of n xs))" by auto
  with concat_batches_of [OF \<open>0 < n\<close>, of xs] show ?thesis by simp
qed

lemma collect_buckets:
  "type x = ''story'' \<Longrightarrow>
     stories (fst (collect c x)) = stories c @ [x] \<and> epics (fst (collect c x)) = epics c \<and>
     labels (fst (collect c x)) = labels c \<and> is_dry_run (fst (collect c x)) = is_dry_run c"
  "type x = ''epic'' \<Longrightarrow>
     stories (fst (collect c x)) = stories c \<and> epics (fst (collect c x)) = epics c @ [x] \<and>
     labels (fst (collect c x)) = labels c \<and> is_dry_run (fst (collect c x)) = is_dry_run c"
  "type x = ''label'' \<Longrightarrow>
     stories (fst (collect c x)) = stories c \<and> epics (fst (collect c x)) = epics c \<and>
     labels (fst (collect c x)) = labels c @ [x] \<and> is_dry_run (fst (collect c x)) = is_dry_run c"
  by (auto simp: collect_def Let_def split: option.splits sum.splits)

text \<open>
  Claim C4, amended. Let \<^verbatim>\<open>commit\<close> run with the live emitter on a collector whose stories
  and epics are records the builder returned, in the buckets \<^verbatim>\<open>collect\<close> puts them in, from
  a world without recorded calls. Then every call the run makes, whether it returns or
  raises, is allowed: every epic sent to \<^verbatim>\<open>/epics\<close> has its attributes in the allow list of
  epics, and every story sent to \<^verbatim>\<open>/stories/bulk\<close>, after the epic and iteration linkage, the
  attachments and \<^verbatim>\<open>clean_story\<close>, has its attributes in the allow list of stories or the
  attribute \<^verbatim>\<open>epic_id\<close>.
\<close>

theorem commit_submits_allowed_keys:
  fixes env :: "'b env" and w :: "('b \<times> call list) world"
  assumes hs: "\<forall>r \<in> set (stories self). type r = ''story'' \<and> (\<exists>t ctx d. build_entity t ctx d = Inr r)"
    and he: "\<forall>r \<in> set (epics self). type r = ''epic'' \<and> (\<exists>t ctx d. build_entity t ctx d = Inr r)"
    and hl: "\<forall>r \<in> set (labels self). type r = ''label''"
    and log: "snd (api w) = []"
  shows "list_all allowed_call
           (snd (api (snd (commit now (recording env) (sc_creator (recording env))
                             iteration_order self w))))"
proof -
  let ?em = "sc_creator (recording env)"
  have em: "\<And>items. list_all submittable items \<Longrightarrow> maintains calls_ok (?em items) (\<lambda>y. True)"
    by (rule sc_creator_calls)
  have ls: "list_all submittable (labels self)"
    using hl by (auto simp: list_all_iff submittable_def)
  have es: "list_all submittable (epics self)"
    unfolding list_all_iff
  proof
    fix r assume "r \<in> set (epics self)"
    with he obtain t ctx d where t: "type r = ''epic''" and b: "build_entity t ctx d = Inr r" by blast
    from build_entity_keys [OF b] have "fst ` set (entity r) \<subseteq> set (select_keys (type r))" by simp
    then have "fst ` set (entity r) \<subseteq> allowed_keys (type r)"
      unfolding allowed_keys_def by (rule subset_trans) (rule Un_upper1)
    then show "submittable r" by (simp add: submittable_def)
  qed
  have ss: "list_all built_story (stories self)"
    unfolding list_all_iff
  proof
    fix r assume "r \<in> set (stories self)"
    with hs obtain t ctx d where t: "type r = ''story''" and b: "build_entity t ctx d = Inr r" by blast
    from build_entity_keys [OF b] have "fst ` set (entity r) \<subseteq> set (select_keys (type r))" by simp
    then have "fst ` set (entity r) \<subseteq> set (select_keys ''story'')" unfolding t .
    with t show "built_story r" by (simp add: built_story_def del: select_keys.simps)
  qed
  have bs: "list_all (list_all built_story) (batches_of BATCH_SIZE (stories self))"
    unfolding list_all_iff
  proof (intro ballI)
    fix b s assume "b \<in> set (batches_of BATCH_SIZE (stories self))" "s \<in> set b"
    with set_batches_of [of BATCH_SIZE b "stories self"] have "s \<in> set (stories self)"
      by (auto simp: BATCH_SIZE_def)
    with ss show "built_story s" by (simp add: list_all_iff)
  qed
  have 4: "maintains calls_ok
      (bind_w (commit_story_batches (recording env) ?em st3 (batches_of BATCH_SIZE (stories (fst st3))))
         (\<lambda>(st4, submitted).
           pure_w \<lparr>created_entities = snd (snd st4),
                   labels_after = labels (fst st4),
                   epics_after = epics (fst st4),
                   iterations_after = iterations (fst st4),
                   submitted_batches = submitted\<rparr>))
      (\<lambda>y. True)" if "stories (fst st3) = stories self" for st3
    using bs unfolding that
    by (auto intro!: maintains_bind_True commit_story_batches_calls em keeps_True maintains_case_prod)
  have 3: "maintains calls_ok
      (bind_w (commit_iterations ?em iteration_order st2) (\<lambda>st3.
       bind_w (commit_story_batches (recording env) ?em st3 (batches_of BATCH_SIZE (stories (fst st3))))
         (\<lambda>(st4, submitted).
           pure_w \<lparr>created_entities = snd (snd st4),
                   labels_after = labels (fst st4),
                   epics_after = epics (fst st4),
                   iterations_after = iterations (fst st4),
                   submitted_batches = submitted\<rparr>)))
      (\<lambda>y. True)" if "stories (fst st2) = stories self" for st2
    by (rule maintains_bind [OF commit_iterations_calls [OF em]], assumption, rule 4) (simp add: that)
  have 2: "maintains calls_ok
      (bind_w (commit_epics ?em st1) (\<lambda>st2.
       bind_w (commit_iterations ?em iteration_order st2) (\<lambda>st3.
       bind_w (commit_story_batches (recording env) ?em st3 (batches_of BATCH_SIZE (stories (fst st3))))
         (\<lambda>(st4, submitted).
           pure_w \<lparr>created_entities = snd (snd st4),
                   labels_after = labels (fst st4),
                   epics_after = epics (fst st4),
                   iterations_after = iterations (fst st4),
                   submitted_batches = submitted\<rparr>))))
      (\<lambda>y. True)" if "stories (fst st1) = stories self \<and> epics (fst st1) = epics self" for st1
  proof -
    from that es have e1: "list_all submittable (epics (fst st1))" by simp
    show ?thesis
      by (rule maintains_bind [OF commit_epics_calls [OF em e1]], assumption, rule 3) (simp add: that)
  qed
  have "maintains calls_ok
      (commit now (recording env) ?em iteration_order self) (\<lambda>y. True)"
    unfolding commit_def
    by (rule maintains_bind [OF commit_labels_calls [OF em ls]], assumption, rule 2)
  moreover from log have "calls_ok w" by (simp add: calls_ok_def)
  ultimately have "calls_ok (snd (commit now (recording env) ?em iteration_order self w))"
    by (rule maintains_inv)
  then show ?thesis by (simp add: calls_ok_def)
qed

lemma built_rows:
  "(case (build_entity ''T'' empty_ctx story_row, build_entity ''T'' empty_ctx epic_row) of
      (Inr s, Inr e) \<Rightarrow>
        type s = ''story'' \<and> type e = ''epic'' \<and>
        map fst (snd (api (snd (commit ''T'' (recording numbering_tracker)
                  (sc_creator (recording numbering_tracker)) []
                  ((collected [build_run_label_entity ''T'', e, s])\<lparr>is_dry_run := False\<rparr>)
                  recording_world))))
          = [''/labels'', ''/epics'', ''/stories/bulk'']
    | _ \<Rightarrow> False)"
  by code_simp

theorem commit_submits_allowed_keys_witness:
  "\<exists>s e. build_entity ''T'' empty_ctx story_row = Inr s \<and>
      build_entity ''T'' empty_ctx epic_row = Inr e \<and>
      list_all allowed_call
        (snd (api (snd (commit ''T'' (recording numbering_tracker)
                  (sc_creator (recording numbering_tracker)) []
                  ((collected [build_run_label_entity ''T'', e, s])\<lparr>is_dry_run := False\<rparr>)
                  recording_world)))) \<and>
      map fst (snd (api (snd (commit ''T'' (recording numbering_tracker)
                  (sc_creator (recording numbering_tracker)) []
                  ((collected [build_run_label_entity ''T'', e, s])\<lparr>is_dry_run := False\<rparr>)
                  recording_world))))
        = [''/labels'', ''/epics'', ''/stories/bulk'']"
proof -
  from built_rows obtain s e where
    s: "build_entity ''T'' empty_ctx story_row = Inr s" "type s = ''story''" and
    e: "build_entity ''T'' empty_ctx epic_row = Inr e" "type e = ''epic''" and
    calls: "map fst (snd (api (snd (commit ''T'' (recording numbering_tracker)
                  (sc_creator (recording numbering_tracker)) []
                  ((collected [build_run_label_entity ''T'', e, s])\<lparr>is_dry_run := False\<rparr>)
                  recording_world))))
          = [''/labels'', ''/epics'', ''/stories/bulk'']"
    by (auto split: prod.splits sum.splits)
  let ?c = "(collected [build_run_label_entity ''T'', e, s])\<lparr>is_dry_run := False\<rparr>"
  have l: "type (build_run_label_entity ''T'') = ''label''"
    by (simp add: build_run_label_entity_def)
  have b: "stories ?c = [s]" "epics ?c = [e]" "labels ?c = [build_run_label_entity ''T'']"
    by (simp_all add: collected_def collect_buckets l s(2) e(2) empty_collector_def)
  have hs: "\<forall>r \<in> set (stories ?c). type r = ''story'' \<and> (\<exists>t ctx d. build_entity t ctx d = Inr r)"
    unfolding b using s by auto
  have he: "\<forall>r \<in> set (epics ?c). type r = ''epic'' \<and> (\<exists>t ctx d. build_entity t ctx d = Inr r)"
    unfolding b using e by auto
  have hl: "\<forall>r \<in> set (labels ?c). type r = ''label''"
    unfolding b using l by simp
  have log: "snd (api recording_world) = []" by (simp add: recording_world_def)
  note r = commit_submits_allowed_keys [OF hs he hl log, of "''T''" numbering_tracker "[]"]
  show ?thesis
    by (rule exI [of _ s], rule exI [of _ e]) (intro conjI s(1) e(1) r calls)
qed

text \<open>
  The claim as it was stated fails for a story linked to an epic: \<^verbatim>\<open>assign_stories_to_epics\<close>
  sets \<^verbatim>\<open>epic_id\<close>, which is not in \<^verbatim>\<open>select_keys["story"]\<close>. In this live run the story built
  from the row is sent to \<^verbatim>\<open>/stories/bulk\<close> with one attribute outside the allow list,
  \<^verbatim>\<open>epic_id\<close>.
\<close>

theorem commit_submits_allowed_keys_counterexample:
  "(case (build_entity ''T'' empty_ctx story_row, build_entity ''T'' empty_ctx epic_row) of
      (Inr s, Inr e) \<Rightarrow>
        map (\<lambda>(endpoint, payload).
               (endpoint,
                case payload of
                  VDict [(k, VList ps)] \<Rightarrow>
                    map (\<lambda>p. filter (\<lambda>k. k \<notin> set (select_keys ''story'')) (payload_keys p)) ps
                | _ \<Rightarrow> []))
          (filter (\<lambda>c. fst c = ''/stories/bulk'')
            (snd (api (snd (commit ''T'' (recording numbering_tracker)
                  (sc_creator (recording numbering_tracker)) []
                  ((collected [build_run_label_entity ''T'', e, s])\<lparr>is_dry_run := False\<rparr>)
                  recording_world)))))
    | _ \<Rightarrow> [])
   = [(''/stories/bulk'', [[''epic_id'']])]"
  by code_simp

section \<open>Epic linkage of a batch\<close>

lemma story_label_loop_label_keys:
  "story_label_loop m e ls = Inr e' \<Longrightarrow> \<exists>ks. map_err label_key ls = Inr ks"
proof (induction ls arbitrary: e)
  case Nil
  then show ?case by simp
next
  case (Cons l ls)
  from Cons.prems obtain nm v where nm: "subscript l ''name'' = Inr nm"
    and v: "keyed_get m nm = Inr v"
    and rest: "story_label_loop m (if v \<noteq> VNone then AList.update ''epic_id'' v e else e) ls = Inr e'"
    by (auto simp: and_then_eq_Inr)
  from v obtain k where "hash_key nm = Inr k" by (auto simp: keyed_get_def and_then_eq_Inr)
  with nm have "label_key l = Inr k" by (simp add: label_key_def)
  moreover from Cons.IH [OF rest] obtain ks where "map_err label_key ls = Inr ks" by blast
  ultimately show ?case by simp
qed

lemma epic_label_loop_values:
  assumes "epic_label_loop m0 epic ls = Inr m" and "m k = Some v" and "m0 k \<noteq> Some v"
  shows "\<exists>c. imported_entity epic = Some c \<and> subscript c ''id'' = Inr v"
  using assms
proof (induction ls arbitrary: m0)
  case Nil
  then show ?case by simp
next
  case (Cons l ls)
  from Cons.prems(1) obtain nm where nm: "subscript l ''name'' = Inr nm"
    by (auto simp: and_then_eq_Inr)
  show ?case
  proof (cases "\<not> is_object nm LABEL_OBJ \<and> \<not> is_object nm RUN_LABEL_OBJ")
    case True
    with Cons.prems(1) nm obtain c epic_id k' where
      c: "imported_entity epic = Some c" "subscript c ''id'' = Inr epic_id" and
      rest: "epic_label_loop (m0(k' \<mapsto> epic_id)) epic ls = Inr m"
      by (auto simp: and_then_eq_Inr item_index_def split: option.splits)
    show ?thesis
    proof (cases "(m0(k' \<mapsto> epic_id)) k = Some v")
      case True
      with Cons.prems(3) have "epic_id = v" by (auto split: if_splits)
      with c show ?thesis by simp
    next
      case False
      from Cons.IH [OF rest Cons.prems(2) False] show ?thesis .
    qed
  next
    case False
    with Cons.prems(1) nm have "epic_label_loop m0 epic ls = Inr m"
      by (auto simp: and_then_eq_Inr split: if_splits)
    from Cons.IH [OF this Cons.prems(2,3)] show ?thesis .
  qed
qed

lemma epic_loop_values:
  assumes "epic_loop m0 es = Inr m" and "m k = Some v" and "m0 k \<noteq> Some v"
  shows "\<exists>epic \<in> set es. \<exists>c. imported_entity epic = Some c \<and> subscript c ''id'' = Inr v"
  using assms
proof (induction es arbitrary: m0)
  case Nil
  then show ?case by simp
next
  case (Cons e es)
  from Cons.prems(1) obtain ls labels m1 where
    l: "epic_label_loop m0 e labels = Inr m1" and r: "epic_loop m1 es = Inr m"
    by (auto simp: and_then_eq_Inr)
  show ?case
  proof (cases "m1 k = Some v")
    case True
    from epic_label_loop_values [OF l True Cons.prems(3)] show ?thesis by simp
  next
    case False
    from Cons.IH [OF r Cons.prems(2) False] show ?thesis by auto
  qed
qed

lemma collect_epic_label_mapping_values:
  assumes "collect_epic_label_mapping es = Inr m" and "m k = Some v"
  shows "\<exists>epic \<in> set es. \<exists>c. imported_entity epic = Some c \<and> subscript c ''id'' = Inr v"
  using epic_loop_values [of Map.empty es m k v] assms
  by (simp add: collect_epic_label_mapping_def)

text \<open>
  Claim C6. Let \<^verbatim>\<open>assign_stories_to_epics\<close> return, on created epics none of which has the id
  \<^verbatim>\<open>None\<close>. Then the epic-label map was built, each of its values is the id of a created
  epic, and every story comes back changed in its entity only, as follows. Let \<open>ks\<close> be the
  keys of the story's labels in list order and the hits those that are keys of the map.
  With no hit the entity is unchanged, so no \<^verbatim>\<open>epic_id\<close> is set; with exactly one hit
  \<^verbatim>\<open>epic_id\<close> is set to the map's value for it; with any hits it is set to the value for the
  last one.
\<close>

theorem assign_stories_to_epics_last_match:
  assumes "assign_stories_to_epics batch created_epics = Inr linked_batch"
    and "\<forall>epic \<in> set created_epics. \<forall>c. imported_entity epic = Some c \<longrightarrow> subscript c ''id'' \<noteq> Inr VNone"
  shows "\<exists>epic_label_map.
     collect_epic_label_mapping created_epics = Inr epic_label_map \<and>
     (\<forall>k v. epic_label_map k = Some v \<longrightarrow>
        (\<exists>epic \<in> set created_epics. \<exists>c. imported_entity epic = Some c \<and> subscript c ''id'' = Inr v)) \<and>
     length linked_batch = length batch \<and>
     (\<forall>n < length batch. \<exists>ls ks e.
        py_iter (dict_get_default (entity (batch ! n)) ''labels'' (VList [])) = Inr ls \<and>
        map_err label_key ls = Inr ks \<and>
        linked_batch ! n = (batch ! n)\<lparr>entity := e\<rparr> \<and>
        (filter (\<lambda>k. k \<in> dom epic_label_map) ks = [] \<longrightarrow> e = entity (batch ! n)) \<and>
        (\<forall>k. filter (\<lambda>k. k \<in> dom epic_label_map) ks = [k] \<longrightarrow>
           e = AList.update ''epic_id'' (the (epic_label_map k)) (entity (batch ! n))) \<and>
        (filter (\<lambda>k. k \<in> dom epic_label_map) ks \<noteq> [] \<longrightarrow>
           e = AList.update ''epic_id''
                 (the (epic_label_map (last (filter (\<lambda>k. k \<in> dom epic_label_map) ks))))
                 (entity (batch ! n))))"
proof -
  from assms(1) obtain m where m: "collect_epic_label_mapping created_epics = Inr m"
    and l: "list_all2 (\<lambda>s s'. assign_story_to_epic m s = Inr s') batch linked_batch"
    by (auto simp: assign_stories_to_epics_def and_then_eq_Inr dest: map_err_list_all2)
  have vals: "\<exists>epic \<in> set created_epics. \<exists>c. imported_entity epic = Some c \<and> subscript c ''id'' = Inr v"
    if "m k = Some v" for k v
    using collect_epic_label_mapping_values [OF m that] .
  have nn: "VNone \<notin> ran m"
  proof
    assume "VNone \<in> ran m"
    then obtain k where "m k = Some VNone" by (auto simp: ran_def)
    from vals [OF this] assms(2) show False by blast
  qed
  have one: "\<exists>ls ks e.
        py_iter (dict_get_default (entity (batch ! n)) ''labels'' (VList [])) = Inr ls \<and>
        map_err label_key ls = Inr ks \<and>
        linked_batch ! n = (batch ! n)\<lparr>entity := e\<rparr> \<and>
        (filter (\<lambda>k. k \<in> dom m) ks = [] \<longrightarrow> e = entity (batch ! n)) \<and>
        (\<forall>k. filter (\<lambda>k. k \<in> dom m) ks = [k] \<longrightarrow>
           e = AList.update ''epic_id'' (the (m k)) (entity (batch ! n))) \<and>
        (filter (\<lambda>k. k \<in> dom m) ks \<noteq> [] \<longrightarrow>
           e = AList.update ''epic_id'' (the (m (last (filter (\<lambda>k. k \<in> dom m) ks))))
                 (entity (batch ! n)))"
    if n: "n < length batch" for n
  proof -
    from l n have a: "assign_story_to_epic m (batch ! n) = Inr (linked_batch ! n)"
      by (simp add: list_all2_conv_all_nth)
    then obtain ls e where
      ls: "py_iter (dict_get_default (entity (batch ! n)) ''labels'' (VList [])) = Inr ls" and
      e: "story_label_loop m (entity (batch ! n)) ls = Inr e" and
      r: "linked_batch ! n = (batch ! n)\<lparr>entity := e\<rparr>"
      by (auto simp: assign_story_to_epic_def and_then_eq_Inr)
    from story_label_loop_label_keys [OF e] obtain ks where ks: "map_err label_key ls = Inr ks"
      by blast
    from story_label_loop_hits [OF ks nn, of "entity (batch ! n)"] e
    have "e = (if filter (\<lambda>k. k \<in> dom m) ks = [] then entity (batch ! n)
          else AList.update ''epic_id'' (the (m (last (filter (\<lambda>k. k \<in> dom m) ks))))
                 (entity (batch ! n)))"
      by simp
    then have "(filter (\<lambda>k. k \<in> dom m) ks = [] \<longrightarrow> e = entity (batch ! n)) \<and>
        (\<forall>k. filter (\<lambda>k. k \<in> dom m) ks = [k] \<longrightarrow>
           e = AList.update ''epic_id'' (the (m k)) (entity (batch ! n))) \<and>
        (filter (\<lambda>k. k \<in> dom m) ks \<noteq> [] \<longrightarrow>
           e = AList.update ''epic_id'' (the (m (last (filter (\<lambda>k. k \<in> dom m) ks))))
                 (entity (batch ! n)))"
      by auto
    with ls ks r show ?thesis by blast
  qed
  from l have "length linked_batch = length batch" by (simp add: list_all2_lengthD)
  with m vals one show ?thesis by blast
qed

lemmas linkage_defs = assign_stories_to_epics_def collect_epic_label_mapping_def
  assign_story_to_epic_def dict_index_def dict_get_default_def label_dict_def
  item_index_def keyed_get_def labelled_story_def created_epic_def

theorem assign_stories_to_epics_last_match_witness:
  "assign_stories_to_epics
     [labelled_story ''S'' [''alpha'', ''beta'', ''gamma''], labelled_story ''T'' [''beta''],
      labelled_story ''U'' [''alpha'']]
     [created_epic ''E'' [''alpha''] 11, created_epic ''F'' [''gamma''] 33]
   = Inr [(labelled_story ''S'' [''alpha'', ''beta'', ''gamma''])
            \<lparr>entity := entity (labelled_story ''S'' [''alpha'', ''beta'', ''gamma''])
                         @ [(''epic_id'', VInt 33)]\<rparr>,
          labelled_story ''T'' [''beta''],
          (labelled_story ''U'' [''alpha''])
            \<lparr>entity := entity (labelled_story ''U'' [''alpha'']) @ [(''epic_id'', VInt 11)]\<rparr>] \<and>
   (\<exists>epic_label_map.
      collect_epic_label_mapping [created_epic ''E'' [''alpha''] 11, created_epic ''F'' [''gamma''] 33]
        = Inr epic_label_map \<and>
      dom epic_label_map = {KStr ''alpha'', KStr ''gamma''})"
proof -
  let ?batch = "[labelled_story ''S'' [''alpha'', ''beta'', ''gamma''], labelled_story ''T'' [''beta''],
      labelled_story ''U'' [''alpha'']]"
  let ?epics = "[created_epic ''E'' [''alpha''] 11, created_epic ''F'' [''gamma''] 33]"
  let ?linked = "[(labelled_story ''S'' [''alpha'', ''beta'', ''gamma''])
            \<lparr>entity := entity (labelled_story ''S'' [''alpha'', ''beta'', ''gamma''])
                         @ [(''epic_id'', VInt 33)]\<rparr>,
          labelled_story ''T'' [''beta''],
          (labelled_story ''U'' [''alpha''])
            \<lparr>entity := entity (labelled_story ''U'' [''alpha'']) @ [(''epic_id'', VInt 11)]\<rparr>]"
  have run: "assign_stories_to_epics ?batch ?epics = Inr ?linked"
    by (simp add: linkage_defs)
  have ids: "\<forall>epic \<in> set ?epics. \<forall>c. imported_entity epic = Some c \<longrightarrow> subscript c ''id'' \<noteq> Inr VNone"
    by (auto simp: created_epic_def dict_index_def)
  have m: "collect_epic_label_mapping ?epics = Inr [KStr ''alpha'' \<mapsto> VInt 11, KStr ''gamma'' \<mapsto> VInt 33]"
    by (simp add: linkage_defs)
  from assign_stories_to_epics_last_match [OF run ids] m run show ?thesis
    by auto
qed

end
